theory Spec2Isabelle
  imports Main "HOL-Library.Word"
begin

section \<open>Strings as the program uses them\<close>

text \<open>
  A Python \<open>str\<close> is modelled as a HOL \<open>string\<close>; each \<open>char\<close> stands for the code
  point of the same number (0 to 255, the Latin-1 range). Code points above 255 are
  outside the model.
\<close>

definition isalnum :: "char \<Rightarrow> bool" where
  \<comment> \<open>\<open>str.isalnum\<close> on one character, for the code points 0 to 255.\<close>
  "isalnum c =
     (let n = (of_char c :: nat) in
        (48 \<le> n \<and> n \<le> 57) \<or> (65 \<le> n \<and> n \<le> 90) \<or> (97 \<le> n \<and> n \<le> 122) \<or>
        n = 170 \<or> n = 178 \<or> n = 179 \<or> n = 181 \<or> n = 185 \<or> n = 186 \<or>
        (188 \<le> n \<and> n \<le> 190) \<or> (192 \<le> n \<and> n \<le> 214) \<or>
        (216 \<le> n \<and> n \<le> 246) \<or> 248 \<le> n)"

fun str_join :: "string \<Rightarrow> string list \<Rightarrow> string" where
  \<comment> \<open>\<open>sep.join(parts)\<close>\<close>
  "str_join sep [] = []"
| "str_join sep [x] = x"
| "str_join sep (x # y # ys) = x @ sep @ str_join sep (y # ys)"

definition startswith :: "string \<Rightarrow> string \<Rightarrow> bool" where
  "startswith s p = (take (length p) s = p)"

definition endswith :: "string \<Rightarrow> string \<Rightarrow> bool" where
  "endswith s p = (length p \<le> length s \<and> drop (length s - length p) s = p)"

function str_replace :: "string \<Rightarrow> string \<Rightarrow> string \<Rightarrow> string" where
  \<comment> \<open>\<open>s.replace(old, new)\<close>: every non-overlapping occurrence, leftmost first.
      With an empty \<open>old\<close>, Python puts \<open>new\<close> before every character and at the end.\<close>
  "str_replace old new [] = (if old = [] then new else [])"
| "str_replace old new (c # cs) =
     (if old = [] then new @ c # str_replace old new cs
      else if startswith (c # cs) old
           then new @ str_replace old new (drop (length old) (c # cs))
           else c # str_replace old new cs)"
  by pat_completeness auto
termination
  by (relation "measure (\<lambda>(old, new, s). length s)") auto

fun digit_char :: "nat \<Rightarrow> char" where
  "digit_char n = char_of (48 + n mod 10)"

function str_nat :: "nat \<Rightarrow> string" where
  \<comment> \<open>decimal digits of a natural number, most significant first\<close>
  "str_nat n = (if n < 10 then [digit_char n] else str_nat (n div 10) @ [digit_char n])"
  by pat_completeness auto
termination
  by (relation "measure id") auto

declare str_nat.simps [simp del]

definition str_int :: "int \<Rightarrow> string" where
  \<comment> \<open>\<open>str(i)\<close> for an \<open>int\<close>\<close>
  "str_int i = (if i < 0 then CHR ''-'' # str_nat (nat (- i)) else str_nat (nat i))"

section \<open>Path functions of \<open>os.path\<close> (POSIX)\<close>

definition after_last_slash :: "string \<Rightarrow> string" where
  "after_last_slash p = rev (takeWhile (\<lambda>c. c \<noteq> CHR ''/'') (rev p))"

definition after_last_dot :: "string \<Rightarrow> string" where
  "after_last_dot p = rev (takeWhile (\<lambda>c. c \<noteq> CHR ''.'') (rev p))"

definition basename :: "string \<Rightarrow> string" where
  \<comment> \<open>\<open>os.path.basename\<close>: what follows the last slash\<close>
  "basename p = after_last_slash p"

definition isabs :: "string \<Rightarrow> bool" where
  "isabs p = startswith p ''/''"

definition splitext :: "string \<Rightarrow> string \<times> string" where
  \<comment> \<open>\<open>os.path.splitext\<close>: the extension starts at the last dot of the last component,
      unless only dots come before it in that component.\<close>
  "splitext p =
     (let tail = after_last_slash p;
          ext = CHR ''.'' # after_last_dot tail;
          stem = take (length tail - length ext) tail
      in if CHR ''.'' \<in> set tail \<and> list_ex (\<lambda>c. c \<noteq> CHR ''.'') stem
         then (take (length p - length ext) p, ext)
         else (p, []))"

definition path_join :: "string \<Rightarrow> string \<Rightarrow> string" where
  \<comment> \<open>\<open>os.path.join(a, b)\<close>\<close>
  "path_join a b =
     (if startswith b ''/'' then b
      else if a = [] \<or> endswith a ''/'' then a @ b
      else a @ ''/'' @ b)"

fun split_slash :: "string \<Rightarrow> string list" where
  \<comment> \<open>\<open>path.split('/')\<close>\<close>
  "split_slash [] = [[]]"
| "split_slash (c # cs) =
     (if c = CHR ''/'' then [] # split_slash cs
      else (case split_slash cs of [] \<Rightarrow> [[c]] | x # xs \<Rightarrow> (c # x) # xs))"

definition norm_step :: "nat \<Rightarrow> string list \<Rightarrow> string \<Rightarrow> string list" where
  "norm_step initial_slashes new_comps part =
     (if part = [] \<or> part = ''.'' then new_comps
      else if part \<noteq> ''..'' \<or> (initial_slashes = 0 \<and> new_comps = [])
                \<or> (new_comps \<noteq> [] \<and> last new_comps = ''..'')
           then new_comps @ [part]
      else if new_comps \<noteq> [] then butlast new_comps
      else new_comps)"

definition normpath :: "string \<Rightarrow> string" where
  \<comment> \<open>\<open>os.path.normpath\<close>\<close>
  "normpath path =
     (if path = [] then ''.''
      else
        let initial_slashes =
              (if startswith path ''/''
               then (if startswith path ''//'' \<and> \<not> startswith path ''///'' then 2 else 1)
               else (0::nat));
            comps = foldl (norm_step initial_slashes) [] (split_slash path);
            path' = replicate initial_slashes CHR ''/'' @ str_join ''/'' comps
        in if path' = [] then ''.'' else path')"

section \<open>The file system\<close>

text \<open>
  The files the program reads are a tree. A regular file has a flag (whether it can be
  opened and decoded as text) and its content; a directory lists its entries in the order
  a scan returns them; a symbolic link carries the node it resolves to (\<open>None\<close> when it
  dangles). Links that form cycles, and \<open>..\<close> taken through a linked directory, are
  outside the model.
\<close>

datatype node =
    File bool string
  | Dir "(string \<times> node) list"
  | Link "node option"

record filesystem =
  root :: node
  cwd :: string  \<comment> \<open>\<open>os.getcwd()\<close>, an absolute path\<close>

fun follow :: "node \<Rightarrow> node option" where
  \<comment> \<open>what a node is once links are resolved\<close>
  "follow (Link None) = None"
| "follow (Link (Some n)) = follow n"
| "follow n = Some n"

fun path_step :: "node list option \<Rightarrow> string \<Rightarrow> node list option" where
  \<comment> \<open>One component of a path. The state is the node reached and its ancestors, nearest
      first. Any component needs the node reached so far to be (or resolve to) a
      directory.\<close>
  "path_step None part = None"
| "path_step (Some []) part = None"
| "path_step (Some (cur # up)) part =
     (case follow cur of
        Some (Dir entries) \<Rightarrow>
          if part = [] \<or> part = ''.'' then Some (Dir entries # up)
          else if part = ''..'' then (if up = [] then Some [Dir entries] else Some up)
          else (case map_of entries part of
                  None \<Rightarrow> None
                | Some child \<Rightarrow> Some (child # Dir entries # up))
      | _ \<Rightarrow> None)"

definition lstat :: "filesystem \<Rightarrow> string \<Rightarrow> node option" where
  \<comment> \<open>the node a path names, a final link not followed; \<open>None\<close> when there is none\<close>
  "lstat fs path =
     (if path = [] then None
      else case foldl path_step (Some [root fs])
                  (split_slash (if isabs path then path else cwd fs @ ''/'' @ path)) of
             Some (n # up) \<Rightarrow> Some n
           | _ \<Rightarrow> None)"

definition stat :: "filesystem \<Rightarrow> string \<Rightarrow> node option" where
  "stat fs path = (case lstat fs path of None \<Rightarrow> None | Some n \<Rightarrow> follow n)"

definition exists :: "filesystem \<Rightarrow> string \<Rightarrow> bool" where
  "exists fs path = (stat fs path \<noteq> None)"

definition isfile :: "filesystem \<Rightarrow> string \<Rightarrow> bool" where
  "isfile fs path = (case stat fs path of Some (File r c) \<Rightarrow> True | _ \<Rightarrow> False)"

definition isdir :: "filesystem \<Rightarrow> string \<Rightarrow> bool" where
  "isdir fs path = (case stat fs path of Some (Dir es) \<Rightarrow> True | _ \<Rightarrow> False)"

definition islink :: "filesystem \<Rightarrow> string \<Rightarrow> bool" where
  "islink fs path = (case lstat fs path of Some (Link t) \<Rightarrow> True | _ \<Rightarrow> False)"

definition st_size :: "filesystem \<Rightarrow> string \<Rightarrow> nat option" where
  \<comment> \<open>\<open>os.stat(path).st_size\<close> of a regular file; \<open>None\<close> where \<open>os.stat\<close> raises. The
      program reads it only where \<open>isfile\<close> holds.\<close>
  "st_size fs path = (case stat fs path of Some (File r c) \<Rightarrow> Some (length c) | _ \<Rightarrow> None)"

definition abspath :: "filesystem \<Rightarrow> string \<Rightarrow> string" where
  "abspath fs path = normpath (if isabs path then path else path_join (cwd fs) path)"

definition is_dir_entry :: "node \<Rightarrow> bool" where
  \<comment> \<open>\<open>entry.is_dir()\<close> of a scan: links are followed\<close>
  "is_dir_entry n = (case follow n of Some (Dir es) \<Rightarrow> True | _ \<Rightarrow> False)"

fun walk_node :: "string \<Rightarrow> node \<Rightarrow> (string \<times> string list \<times> string list) list"
  and walk_entries :: "string \<Rightarrow> (string \<times> node) list \<Rightarrow> (string \<times> string list \<times> string list) list" where
  \<comment> \<open>\<open>os.walk\<close>, top down, links to directories listed but not entered\<close>
  "walk_node top_dir (Dir entries) =
     (top_dir, map fst (filter (\<lambda>(name, n). is_dir_entry n) entries),
           map fst (filter (\<lambda>(name, n). \<not> is_dir_entry n) entries))
       # walk_entries top_dir entries"
| "walk_node top_dir (File r c) = []"
| "walk_node top_dir (Link t) = []"
| "walk_entries top_dir [] = []"
| "walk_entries top_dir ((name, n) # entries) =
     (case n of Dir es \<Rightarrow> walk_node (path_join top_dir name) n | _ \<Rightarrow> []) @ walk_entries top_dir entries"

definition os_walk :: "filesystem \<Rightarrow> string \<Rightarrow> (string \<times> string list \<times> string list) list" where
  \<comment> \<open>\<open>os.walk(top)\<close>: the top may be a link to a directory; a top that cannot be
      scanned gives nothing\<close>
  "os_walk fs top_dir = (case stat fs top_dir of Some (Dir es) \<Rightarrow> walk_node top_dir (Dir es) | _ \<Rightarrow> [])"

section \<open>Reading a list file\<close>

datatype level = DEBUG | INFO | ERROR | CRITICAL

type_synonym log = "(level \<times> string) list"

fun universal_newlines :: "string \<Rightarrow> string" where
  \<comment> \<open>text mode: \<open>\r\n\<close> and \<open>\r\<close> are read as \<open>\n\<close>\<close>
  "universal_newlines [] = []"
| "universal_newlines [c] = [if c = CHR 0x0D then CHR 0x0A else c]"
| "universal_newlines (c # d # ds) =
     (if c = CHR 0x0D \<and> d = CHR 0x0A then CHR 0x0A # universal_newlines ds
      else if c = CHR 0x0D then CHR 0x0A # universal_newlines (d # ds)
      else c # universal_newlines (d # ds))"

fun readlines :: "string \<Rightarrow> string list" where
  \<comment> \<open>\<open>f.readlines()\<close>: each line with its newline; a last line may lack one\<close>
  "readlines [] = []"
| "readlines (c # cs) =
     (if c = CHR 0x0A then [c] # readlines cs
      else (case readlines cs of [] \<Rightarrow> [[c]] | l # ls \<Rightarrow> (c # l) # ls))"

definition rstrip_nl :: "string \<Rightarrow> string" where
  \<comment> \<open>\<open>line.rstrip("\n")\<close>\<close>
  "rstrip_nl s = rev (dropWhile (\<lambda>c. c = CHR 0x0A) (rev s))"

definition File2Strings :: "filesystem \<Rightarrow> string \<Rightarrow> string list option \<times> log" where
  \<comment> \<open>The lines, or \<open>None\<close>: returned at once for a path that is no file, and after
      the \<open>except\<close> branch has logged the error (whose text is not modelled) for a
      file that cannot be opened or decoded.\<close>
  "File2Strings fs filename =
     (if \<not> exists fs filename \<or> \<not> isfile fs filename then (None, [])
      else case stat fs filename of
             Some (File True c) \<Rightarrow> (Some (map rstrip_nl (readlines (universal_newlines c))), [])
           | _ \<Rightarrow> (None, [(ERROR, ''Bingraph load file error'')]))"

section \<open>Gathering the files\<close>

definition quoted :: "string \<Rightarrow> string" where
  \<comment> \<open>the text between double quotes, as the messages print a path\<close>
  "quoted s = [CHR 0x22] @ s @ [CHR 0x22]"

definition keep_file :: "filesystem \<Rightarrow> string \<Rightarrow> bool" where
  \<comment> \<open>the test both branches of \<open>find_files\<close> apply\<close>
  "keep_file fs p = (isfile fs p \<and> \<not> islink fs p \<and> \<not> st_size fs p = Some 0)"

fun walk_files :: "filesystem \<Rightarrow> string \<Rightarrow> string list \<Rightarrow> string list \<times> log" where
  \<comment> \<open>\<open>for fname in files\<close>\<close>
  "walk_files fs dir_name [] = ([], [])"
| "walk_files fs dir_name (fname # files) =
     (let abs_fpath = path_join dir_name fname;
          (found, lg) = walk_files fs dir_name files
      in if keep_file fs abs_fpath
         then (abs_fpath # found, (INFO, ''File found: '' @ quoted abs_fpath) # lg)
         else (found, lg))"

fun walk_dirs :: "filesystem \<Rightarrow> (string \<times> string list \<times> string list) list \<Rightarrow> string list \<times> log" where
  \<comment> \<open>\<open>for dir_name, dirs, files in os.walk(f)\<close>\<close>
  "walk_dirs fs [] = ([], [])"
| "walk_dirs fs ((dir_name, dirs, files) # rest) =
     (let (found, lg) = walk_files fs dir_name files;
          (found', lg') = walk_dirs fs rest
      in (found @ found', (DEBUG, ''Found directory: '' @ dir_name) # lg @ lg'))"

fun find_files :: "filesystem \<Rightarrow> string list \<Rightarrow> bool \<Rightarrow> string list \<times> log" where
  "find_files fs [] recurse = ([], [])"
| "find_files fs (f # search_paths) recurse =
     (let (found, lg) =
            (if recurse \<and> isdir fs f then walk_dirs fs (os_walk fs f)
             else if keep_file fs f
                  then (let abs_fpath = abspath fs f
                        in ([abs_fpath], [(DEBUG, ''Found file: '' @ quoted abs_fpath)]))
             else ([], [(CRITICAL, ''Not a file, skipping: '' @ quoted f)]));
          (found', lg') = find_files fs search_paths recurse
      in (found @ found', lg @ lg'))"

section \<open>Output names\<close>

definition clean_fname :: "string \<Rightarrow> string" where
  "clean_fname fn = str_join [] (map (\<lambda>c. [c]) (filter isalnum fn))"

definition gen_names ::
  "string \<Rightarrow> string \<Rightarrow> string \<Rightarrow> string option \<Rightarrow> string \<Rightarrow> int option
     \<Rightarrow> string \<times> string \<times> string" where
  \<comment> \<open>\<open>save_prefix\<close> and \<open>findex\<close> are \<open>None\<close> or a value; \<open>if save_prefix\<close> is
      false for \<open>None\<close> and for the empty string.\<close>
  "gen_names ffrmt abs_fpath abs_save_path save_prefix graphtype findex =
     (let base_save_fname = ''{prefix}-{findex}-{graphtype}-{cleaned_fname}.{ffrmt}'';
          save_fname =
            (case save_prefix of
               None \<Rightarrow> str_replace ''{prefix}-'' [] base_save_fname
             | Some p \<Rightarrow>
                 if p \<noteq> [] then str_replace ''{prefix}'' p base_save_fname
                 else str_replace ''{prefix}-'' [] base_save_fname);
          save_fname = str_replace ''{graphtype}'' graphtype save_fname;
          cleaned_fname = clean_fname (basename abs_fpath);
          save_fname =
            (case findex of
               Some i \<Rightarrow>
                 str_replace ''{cleaned_fname}'' cleaned_fname
                   (str_replace ''{findex}'' (str_int i) save_fname)
             | None \<Rightarrow>
                 str_replace ''-{cleaned_fname}'' []
                   (str_replace ''{findex}-'' [] save_fname));
          save_fname = str_replace ''{ffrmt}'' ffrmt save_fname;
          abs_save_fpath = path_join abs_save_path save_fname
      in (abs_save_fpath, basename abs_fpath, cleaned_fname))"

section \<open>Python values and the argument dictionary\<close>

datatype pyval =
    PNone
  | PBool bool
  | PInt int
  | PFloat int int  \<comment> \<open>a decimal literal \<open>m * 10 ^ e\<close>: \<open>3.4\<close> is \<open>PFloat 34 (- 1)\<close>\<close>
  | PStr string
  | PList "pyval list"  \<comment> \<open>a list or a tuple\<close>
  | PDict "(string \<times> pyval) list"

text \<open>
  A \<open>dict\<close> with string keys is an association list in insertion order (the order
  \<open>" ".join(args_dict)\<close> and \<open>items()\<close> iterate in).
\<close>

type_synonym pydict = "(string \<times> pyval) list"

datatype error =
    KeyError pyval  \<comment> \<open>the key that was not found\<close>
  | TypeError
  | ModuleError string  \<comment> \<open>an exception raised inside a graph module\<close>
  | BackendError string  \<comment> \<open>an exception raised inside matplotlib\<close>
  | ListFileError string  \<comment> \<open>\<open>Exception("Error reading %s", file)\<close> of \<open>main\<close>\<close>
  | SystemExit nat  \<comment> \<open>\<open>exit(1)\<close>\<close>

definition bind_err :: "error + 'a \<Rightarrow> ('a \<Rightarrow> error + 'b) \<Rightarrow> error + 'b" where
  "bind_err r f = (case r of Inl e \<Rightarrow> Inl e | Inr v \<Rightarrow> f v)"

definition dict_get :: "pydict \<Rightarrow> string \<Rightarrow> error + pyval" where
  \<comment> \<open>\<open>d[k]\<close>\<close>
  "dict_get d k = (case map_of d k of None \<Rightarrow> Inl (KeyError (PStr k)) | Some v \<Rightarrow> Inr v)"

fun dict_set :: "pydict \<Rightarrow> string \<Rightarrow> pyval \<Rightarrow> pydict" where
  \<comment> \<open>\<open>d[k] = v\<close>: an existing key keeps its place, a new key goes last\<close>
  "dict_set [] k v = [(k, v)]"
| "dict_set ((k', v') # d) k v = (if k' = k then (k, v) # d else (k', v') # dict_set d k v)"

fun truthy :: "pyval \<Rightarrow> bool" where
  "truthy PNone = False"
| "truthy (PBool b) = b"
| "truthy (PInt i) = (i \<noteq> 0)"
| "truthy (PFloat m e) = (m \<noteq> 0)"
| "truthy (PStr s) = (s \<noteq> [])"
| "truthy (PList xs) = (xs \<noteq> [])"
| "truthy (PDict d) = (d \<noteq> [])"

fun as_str :: "pyval \<Rightarrow> error + string" where
  \<comment> \<open>a string operation on a value that is not a \<open>str\<close> raises \<open>TypeError\<close>\<close>
  "as_str (PStr s) = Inr s"
| "as_str _ = Inl TypeError"

fun py_iter :: "pyval \<Rightarrow> error + pyval list" where
  \<comment> \<open>the elements a \<open>for\<close> loop sees; \<open>len\<close> of the value is their number\<close>
  "py_iter (PList xs) = Inr xs"
| "py_iter (PStr s) = Inr (map (\<lambda>c. PStr [c]) s)"
| "py_iter (PDict d) = Inr (map (\<lambda>(k, v). PStr k) d)"
| "py_iter _ = Inl TypeError"

section \<open>Base64\<close>

type_synonym byte = "8 word"

definition b64chars :: string where
  "b64chars = ''ABCDEFGHIJKLMNOPQRSTUVWXYZabcdefghijklmnopqrstuvwxyz0123456789+/''"

definition b64char :: "nat \<Rightarrow> char" where
  "b64char n = b64chars ! (n mod 64)"

fun b64encode :: "byte list \<Rightarrow> string" where
  \<comment> \<open>\<open>base64.b64encode(bs).decode()\<close>\<close>
  "b64encode [] = []"
| "b64encode [a] =
     [b64char (unat a div 4), b64char (unat a mod 4 * 16), CHR ''='', CHR ''='']"
| "b64encode [a, b] =
     [b64char (unat a div 4), b64char (unat a mod 4 * 16 + unat b div 16),
      b64char (unat b mod 16 * 4), CHR ''='']"
| "b64encode (a # b # c # bs) =
     [b64char (unat a div 4), b64char (unat a mod 4 * 16 + unat b div 16),
      b64char (unat b mod 16 * 4 + unat c div 64), b64char (unat c mod 64)] @ b64encode bs"

definition b64index :: "char \<Rightarrow> nat option" where
  "b64index c = map_of (zip b64chars [0..<64]) c"

fun b64decode :: "string \<Rightarrow> byte list option" where
  \<comment> \<open>\<open>base64.b64decode\<close> on a string of alphabet characters and padding; any other
      string is \<open>None\<close> (Python raises, or drops the foreign characters first).\<close>
  "b64decode [] = Some []"
| "b64decode [w, x, y, z] =
     (case (b64index w, b64index x) of
        (Some p, Some q) \<Rightarrow>
          (if y = CHR ''='' \<and> z = CHR ''='' then Some [of_nat (p * 4 + q div 16)]
           else case b64index y of
               None \<Rightarrow> None
             | Some r \<Rightarrow>
                 (if z = CHR ''=''
                  then Some [of_nat (p * 4 + q div 16), of_nat (q mod 16 * 16 + r div 4)]
                  else case b64index z of
                      None \<Rightarrow> None
                    | Some s \<Rightarrow>
                        Some [of_nat (p * 4 + q div 16), of_nat (q mod 16 * 16 + r div 4),
                              of_nat (r mod 4 * 64 + s)]))
      | _ \<Rightarrow> None)"
| "b64decode (w # x # y # z # cs) =
     (case (b64index w, b64index x, b64index y, b64index z, b64decode cs) of
        (Some p, Some q, Some r, Some s, Some bs) \<Rightarrow>
          Some (of_nat (p * 4 + q div 16) # of_nat (q mod 16 * 16 + r div 4)
                  # of_nat (r mod 4 * 64 + s) # bs)
      | _ \<Rightarrow> None)"
| "b64decode _ = None"

section \<open>The graph modules and the plotting backend\<close>

text \<open>
  The modules \<open>graphs.ent.graph\<close> and \<open>graphs.hist.graph\<close> and matplotlib are not part of
  the file; they are parameters. A module's \<open>generate\<close> gets the argument dictionary and
  returns the figure, the save options and the metadata, or raises. The backend sizes a
  figure and turns it into the bytes of an image; both may raise, and the bytes may depend
  on where the image goes (an in-memory buffer or a file at a path) as well as on the
  figure, the format, the dpi and the save options. Writing a file is assumed to succeed.
\<close>

record 'fig graph_module =
  generate :: "pydict \<Rightarrow> error + ('fig \<times> pydict \<times> pyval)"
  args_validation :: "pydict \<Rightarrow> error option"

datatype target =
    Buffer  \<comment> \<open>\<open>io.BytesIO()\<close>\<close>
  | Path string

record 'fig backend =
  set_size_inches :: "pyval list \<Rightarrow> 'fig \<Rightarrow> error + 'fig"
  tight_layout :: "'fig \<Rightarrow> 'fig"
  savefig :: "'fig \<Rightarrow> target \<Rightarrow> pyval \<Rightarrow> pyval \<Rightarrow> pydict \<Rightarrow> error + byte list"

datatype content = ImageFile "byte list" | JsonFile pydict

datatype 'fig effect =
    Show 'fig  \<comment> \<open>\<open>plt.show()\<close>\<close>
  | Write string content  \<comment> \<open>a file written at a path\<close>

definition version :: pyval where
  "version = PDict [(''codename'', PStr ''Iron Airedale''), (''digit'', PFloat 34 (- 1))]"

section \<open>\<open>generate_graphs\<close>\<close>

definition select_graphtypes ::
  "(string \<times> 'fig graph_module) list \<Rightarrow> pydict \<Rightarrow> error + (string \<times> 'fig graph_module) list" where
  \<comment> \<open>\<open>graphs\<close> if \<open>args_dict.get("graphtype", "") == "all"\<close>, else
      \<open>{args_dict["graphtype"]: graphs[args_dict["graphtype"]]}\<close>. The keys of \<open>graphs\<close> are
      strings: any other value that can be hashed is a missing key, a list or a dictionary
      cannot be hashed.\<close>
  "select_graphtypes graphs args_dict =
     (case map_of args_dict ''graphtype'' of
        None \<Rightarrow> Inl (KeyError (PStr ''graphtype''))
      | Some (PStr g) \<Rightarrow>
          if g = ''all'' then Inr graphs
          else (case map_of graphs g of
                  None \<Rightarrow> Inl (KeyError (PStr g))
                | Some m \<Rightarrow> Inr [(g, m)])
      | Some (PList xs) \<Rightarrow> Inl TypeError
      | Some (PDict d) \<Rightarrow> Inl TypeError
      | Some v \<Rightarrow> Inl (KeyError v))"

definition call_gen_names ::
  "pyval \<Rightarrow> pyval \<Rightarrow> pyval \<Rightarrow> pyval \<Rightarrow> string \<Rightarrow> int option
     \<Rightarrow> error + (string \<times> string \<times> string)" where
  \<comment> \<open>\<open>gen_names\<close> on Python values: a string operation on a value of another type
      raises \<open>TypeError\<close>; a false \<open>save_prefix\<close> of any type is no prefix.\<close>
  "call_gen_names ffrmt abs_fpath abs_save_path save_prefix graphtype findex =
     bind_err (if truthy save_prefix then bind_err (as_str save_prefix) (\<lambda>p. Inr (Some p))
               else Inr None) (\<lambda>prefix.
     bind_err (as_str abs_fpath) (\<lambda>fpath.
     bind_err (as_str ffrmt) (\<lambda>frmt.
     bind_err (as_str abs_save_path) (\<lambda>save_path.
       Inr (gen_names frmt fpath save_path prefix graphtype findex)))))"

definition output_graph ::
  "'fig backend \<Rightarrow> pydict \<Rightarrow> string \<Rightarrow> 'fig \<Rightarrow> pydict \<Rightarrow> pyval \<Rightarrow> error + 'fig effect" where
  \<comment> \<open>The \<open>if args_dict["showplt"] ... elif args_dict["json"] ... else\<close> of the loop
      body: the one effect of the iteration.\<close>
  "output_graph plt args_dict abs_save_fpath fig save_kwargs json_data =
     bind_err (dict_get args_dict ''showplt'') (\<lambda>showplt.
     if truthy showplt then Inr (Show fig)
     else
     bind_err (dict_get args_dict ''json'') (\<lambda>json.
     if truthy json then
       bind_err (dict_get args_dict ''format'') (\<lambda>frmt.
       bind_err (dict_get args_dict ''dpi'') (\<lambda>dpi.
       bind_err (savefig plt fig Buffer frmt dpi save_kwargs) (\<lambda>buf.
       let output = [];
           output = dict_set output ''info'' json_data;
           output = dict_set output ''graph'' (PStr (b64encode buf));
           output = dict_set output ''cmdline'' (PStr (str_join '' '' (map fst args_dict)));
           output = dict_set output ''version'' version;
           abs_save_fpath = fst (splitext abs_save_fpath) @ ''.json''
       in Inr (Write abs_save_fpath (JsonFile output)))))
     else
       bind_err (dict_get args_dict ''format'') (\<lambda>frmt.
       bind_err (dict_get args_dict ''dpi'') (\<lambda>dpi.
       bind_err (savefig plt fig (Path abs_save_fpath) frmt dpi save_kwargs) (\<lambda>img.
         Inr (Write abs_save_fpath (ImageFile img)))))))"

definition process_pair ::
  "'fig backend \<Rightarrow> nat \<Rightarrow> nat \<Rightarrow> pyval \<Rightarrow> string \<Rightarrow> 'fig graph_module \<Rightarrow> pydict
     \<Rightarrow> pydict \<times> (error + 'fig effect)" where
  \<comment> \<open>The body of the inner loop, for the file \<open>abs_fpath\<close> at position \<open>index\<close> of
      \<open>nfiles\<close> files and the module \<open>module\<close> named \<open>module_name\<close>. It returns the
      dictionary as the body leaves it (the three entries are stored before \<open>generate\<close> is
      called, so an exception raised later leaves them in place) and the effect of the
      iteration or the exception raised.\<close>
  "process_pair plt index nfiles abs_fpath module_name module args_dict =
     (case bind_err (dict_get args_dict ''format'') (\<lambda>frmt.
           bind_err (dict_get args_dict ''save_dir'') (\<lambda>save_dir.
           bind_err (dict_get args_dict ''prefix'') (\<lambda>prefix.
             call_gen_names frmt abs_fpath save_dir prefix module_name
               (if nfiles > 1 then Some (int index) else None)))) of
        Inl e \<Rightarrow> (args_dict, Inl e)
      | Inr (abs_save_fpath, fname, cleaned_fname) \<Rightarrow>
          let args_dict = dict_set args_dict ''abs_fpath'' abs_fpath;
              args_dict = dict_set args_dict ''fname'' (PStr fname);
              args_dict = dict_set args_dict ''cleaned_fname'' (PStr cleaned_fname)
          in (args_dict,
              bind_err (generate module args_dict) (\<lambda>(fig, save_kwargs, json_data).
              bind_err (dict_get args_dict ''figsize'') (\<lambda>figsize.
              bind_err (py_iter figsize) (\<lambda>size.
              bind_err (set_size_inches plt size fig) (\<lambda>fig.
              let fig = tight_layout plt fig
              in output_graph plt args_dict abs_save_fpath fig save_kwargs json_data))))))"

fun graphtypes_loop ::
  "'fig backend \<Rightarrow> nat \<Rightarrow> nat \<Rightarrow> pyval \<Rightarrow> (string \<times> 'fig graph_module) list \<Rightarrow> pydict
     \<Rightarrow> 'fig effect list \<Rightarrow> error option \<times> pydict \<times> 'fig effect list" where
  \<comment> \<open>\<open>for module_name, module in __graphtypes__.items()\<close>; an exception ends the loop\<close>
  "graphtypes_loop plt index nfiles abs_fpath [] args_dict done = (None, args_dict, done)"
| "graphtypes_loop plt index nfiles abs_fpath ((module_name, module) # rest) args_dict done =
     (case process_pair plt index nfiles abs_fpath module_name module args_dict of
        (args_dict', Inl e) \<Rightarrow> (Some e, args_dict', done)
      | (args_dict', Inr eff) \<Rightarrow>
          graphtypes_loop plt index nfiles abs_fpath rest args_dict' (done @ [eff]))"

fun files_loop ::
  "'fig backend \<Rightarrow> (string \<times> 'fig graph_module) list \<Rightarrow> nat \<Rightarrow> nat \<Rightarrow> pyval list \<Rightarrow> pydict
     \<Rightarrow> 'fig effect list \<Rightarrow> error option \<times> pydict \<times> 'fig effect list" where
  \<comment> \<open>\<open>for index, abs_fpath in enumerate(args_dict["files"])\<close>, from \<open>index\<close> on\<close>
  "files_loop plt graphtypes index nfiles [] args_dict done = (None, args_dict, done)"
| "files_loop plt graphtypes index nfiles (abs_fpath # rest) args_dict done =
     (case graphtypes_loop plt index nfiles abs_fpath graphtypes args_dict done of
        (Some e, args_dict', done') \<Rightarrow> (Some e, args_dict', done')
      | (None, args_dict', done') \<Rightarrow>
          files_loop plt graphtypes (Suc index) nfiles rest args_dict' done')"

definition generate_graphs ::
  "(string \<times> 'fig graph_module) list \<Rightarrow> 'fig backend \<Rightarrow> pydict
     \<Rightarrow> error option \<times> 'fig effect list" where
  \<comment> \<open>The result is the exception that ended the call, if any, and the effects up to
      that point, in order. \<open>graphs\<close> is the dictionary of imported modules.\<close>
  "generate_graphs graphs plt args_dict =
     (case select_graphtypes graphs args_dict of
        Inl e \<Rightarrow> (Some e, [])
      | Inr graphtypes \<Rightarrow>
          (case bind_err (dict_get args_dict ''files'') py_iter of
             Inl e \<Rightarrow> (Some e, [])
           | Inr files \<Rightarrow>
               (case files_loop plt graphtypes 0 (length files) files args_dict [] of
                  (r, args_dict', done) \<Rightarrow> (r, done))))"

section \<open>\<open>main\<close>, after the command line is parsed\<close>

text \<open>
  \<open>argparse\<close> is not modelled: \<open>main\<close> starts from the parsed arguments, a dictionary
  in which \<open>files\<close> is a list of strings, \<open>recurse\<close> a flag and \<open>save_dir\<close> a string.
\<close>

fun as_str_list :: "pyval \<Rightarrow> error + string list" where
  "as_str_list (PList []) = Inr []"
| "as_str_list (PList (x # xs)) =
     bind_err (as_str x) (\<lambda>s. bind_err (as_str_list (PList xs)) (\<lambda>ss. Inr (s # ss)))"
| "as_str_list _ = Inl TypeError"

fun gather_files :: "filesystem \<Rightarrow> string list \<Rightarrow> bool \<Rightarrow> error + string list" where
  \<comment> \<open>\<open>for file in args.files\<close>: the list \<open>__files__\<close>, or the exception raised for a list
      file that cannot be read\<close>
  "gather_files fs [] recurse = Inr []"
| "gather_files fs (file # rest) recurse =
     (if startswith file ''@''
      then (case fst (File2Strings fs (drop 1 file)) of
              None \<Rightarrow> Inl (ListFileError file)
            | Some files \<Rightarrow> bind_err (gather_files fs rest recurse) (\<lambda>more. Inr (files @ more)))
      else bind_err (gather_files fs rest recurse)
             (\<lambda>more. Inr (fst (find_files fs [file] recurse) @ more)))"

fun validate_all :: "(string \<times> 'fig graph_module) list \<Rightarrow> pydict \<Rightarrow> error option" where
  \<comment> \<open>\<open>for name, module in __graphtypes__.items(): module.args_validation(args)\<close>\<close>
  "validate_all [] args = None"
| "validate_all ((name, module) # rest) args =
     (case args_validation module args of Some e \<Rightarrow> Some e | None \<Rightarrow> validate_all rest args)"

definition main ::
  "filesystem \<Rightarrow> (string \<times> 'fig graph_module) list \<Rightarrow> 'fig backend \<Rightarrow> pydict
     \<Rightarrow> error option \<times> 'fig effect list" where
  "main fs graphs plt args =
     (case bind_err (dict_get args ''files'') as_str_list of
        Inl e \<Rightarrow> (Some e, [])
      | Inr files \<Rightarrow>
     (case dict_get args ''recurse'' of
        Inl e \<Rightarrow> (Some e, [])
      | Inr recurse \<Rightarrow>
     (case gather_files fs files (truthy recurse) of
        Inl e \<Rightarrow> (Some e, [])
      | Inr found \<Rightarrow>
     let args = dict_set args ''files'' (PList (map PStr found)) in
     (case bind_err (dict_get args ''save_dir'') as_str of
        Inl e \<Rightarrow> (Some e, [])
      | Inr save_dir \<Rightarrow>
     let args = dict_set args ''save_dir'' (PStr (abspath fs save_dir)) in
     if \<not> isdir fs (abspath fs save_dir) then (Some (SystemExit 1), [])
     else
     (case select_graphtypes graphs args of
        Inl e \<Rightarrow> (Some e, [])
      | Inr graphtypes \<Rightarrow>
     (case validate_all graphtypes args of
        Some e \<Rightarrow> (Some e, [])
      | None \<Rightarrow> generate_graphs graphs plt args))))))"

section \<open>What the claims speak of\<close>

definition spec_filename ::
  "string \<Rightarrow> string option \<Rightarrow> string \<Rightarrow> string \<Rightarrow> int option \<Rightarrow> string" where
  \<comment> \<open>The file name as a concatenation of segments: the prefix segment unless the prefix
      is absent or empty; with an index, the index, the graph type and the sanitised name;
      without one, the graph type alone; then the format.\<close>
  "spec_filename ffrmt save_prefix graphtype cleaned findex =
     (case save_prefix of None \<Rightarrow> [] | Some p \<Rightarrow> if p = [] then [] else p @ ''-'') @
     (case findex of
        None \<Rightarrow> graphtype
      | Some i \<Rightarrow> str_int i @ ''-'' @ graphtype @ ''-'' @ cleaned) @
     ''.'' @ ffrmt"

fun written_path :: "'fig effect \<Rightarrow> string option" where
  \<comment> \<open>the path an effect writes, if it writes\<close>
  "written_path (Show fig) = None"
| "written_path (Write path c) = Some path"

definition prefix_value :: "string option \<Rightarrow> pyval" where
  \<comment> \<open>the value of \<open>args_dict["prefix"]\<close>: \<open>None\<close> or a string\<close>
  "prefix_value save_prefix = (case save_prefix of None \<Rightarrow> PNone | Some p \<Rightarrow> PStr p)"

definition mode_path :: "pyval \<Rightarrow> string \<Rightarrow> string" where
  \<comment> \<open>the path written for a computed path: in JSON mode its extension is replaced\<close>
  "mode_path json path = (if truthy json then fst (splitext path) @ ''.json'' else path)"

definition same_config :: "pydict \<Rightarrow> pydict \<Rightarrow> bool" where
  \<comment> \<open>two dictionaries agree on the options the loop body reads\<close>
  "same_config d d' =
     (map_of d' ''format'' = map_of d ''format'' \<and> map_of d' ''save_dir'' = map_of d ''save_dir''
      \<and> map_of d' ''prefix'' = map_of d ''prefix'' \<and> map_of d' ''showplt'' = map_of d ''showplt''
      \<and> map_of d' ''json'' = map_of d ''json'' \<and> map_of d' ''dpi'' = map_of d ''dpi''
      \<and> map_of d' ''figsize'' = map_of d ''figsize'')"

definition has_config ::
  "pydict \<Rightarrow> string \<Rightarrow> string \<Rightarrow> string option \<Rightarrow> pyval \<Rightarrow> pyval \<Rightarrow> bool" where
  \<comment> \<open>the dictionary holds this format, save directory, prefix, \<open>showplt\<close> and \<open>json\<close>\<close>
  "has_config d f dir sp sv jv =
     (map_of d ''format'' = Some (PStr f) \<and> map_of d ''save_dir'' = Some (PStr dir)
      \<and> map_of d ''prefix'' = Some (prefix_value sp) \<and> map_of d ''showplt'' = Some sv
      \<and> map_of d ''json'' = Some jv)"

definition newline_ended :: "string \<Rightarrow> string" where
  \<comment> \<open>a text with a newline put after its last line, if that line lacks it\<close>
  "newline_ended t = (if t = [] \<or> last t = CHR 0x0A then t else t @ [CHR 0x0A])"

definition valid_name :: "string \<Rightarrow> bool" where
  \<comment> \<open>a name a directory entry can have\<close>
  "valid_name n = (n \<noteq> [] \<and> n \<noteq> ''.'' \<and> n \<noteq> ''..'' \<and> CHR ''/'' \<notin> set n)"

fun wf_node :: "node \<Rightarrow> bool" and wf_entries :: "(string \<times> node) list \<Rightarrow> bool" where
  \<comment> \<open>the directories of a tree have entries with valid names, no name twice\<close>
  "wf_node (Dir entries) = (distinct (map fst entries) \<and> wf_entries entries)"
| "wf_node (File r c) = True"
| "wf_node (Link t) = True"
| "wf_entries [] = True"
| "wf_entries ((name, n) # entries) = (valid_name name \<and> wf_node n \<and> wf_entries entries)"

definition plain_files :: "(string \<times> node) list \<Rightarrow> string list" where
  \<comment> \<open>the entries of a directory that are regular files, not links, and not empty\<close>
  "plain_files entries =
     map fst (filter (\<lambda>(name, n). case n of File r c \<Rightarrow> c \<noteq> [] | _ \<Rightarrow> False) entries)"

fun tree_files :: "node \<Rightarrow> string list list"
  and subtree_files :: "(string \<times> node) list \<Rightarrow> string list list" where
  \<comment> \<open>The non-empty regular files of a tree, each as the names leading to it from the
      top, through directories only (no link): the files of a directory first, then
      those of its subdirectories in turn.\<close>
  "tree_files (Dir entries) = map (\<lambda>name. [name]) (plain_files entries) @ subtree_files entries"
| "tree_files (File r c) = []"
| "tree_files (Link t) = []"
| "subtree_files [] = []"
| "subtree_files ((name, n) # entries) =
     (case n of Dir es \<Rightarrow> map ((#) name) (tree_files n) | _ \<Rightarrow> []) @ subtree_files entries"

definition skipped_input :: "filesystem \<Rightarrow> bool \<Rightarrow> string \<Rightarrow> bool" where
  \<comment> \<open>The inputs said to be skipped: a path that names nothing, an empty regular file, a
      directory when recursion is off, and a link, unless recursion is on and the link
      resolves to a directory.\<close>
  "skipped_input fs recurse path =
     (case lstat fs path of
        None \<Rightarrow> True
      | Some (File r c) \<Rightarrow> c = []
      | Some (Dir entries) \<Rightarrow> \<not> recurse
      | Some (Link t) \<Rightarrow> \<not> (recurse \<and> is_dir_entry (Link t)))"

definition below :: "string \<Rightarrow> string list \<Rightarrow> string" where
  \<comment> \<open>the path of names under a directory, joined one by one\<close>
  "below top_dir names = foldl path_join top_dir names"


section \<open>Sanitising a file name\<close>

lemma str_join_singletons: "str_join [] (map (\<lambda>c. [c]) xs) = xs"
  by (induction xs rule: induct_list012) simp_all

lemma clean_fname_filter: "clean_fname s = filter isalnum s"
  by (simp add: clean_fname_def str_join_singletons)

text \<open>
  C10. \<open>clean_fname\<close> is a function of its argument alone. It keeps the alphanumeric
  characters of the name, unchanged and in order, and drops every other character;
  applying it twice is the same as applying it once.
\<close>

theorem clean_fname_idempotent:
  "clean_fname (clean_fname s) = clean_fname s
   \<and> clean_fname s = filter isalnum s
   \<and> list_all isalnum (clean_fname s)"
  by (simp add: clean_fname_filter list_all_iff)

section \<open>The name template against its segments\<close>

lemma str_replace_skip:
  "CHR ''{'' \<notin> set xs \<Longrightarrow>
   str_replace (CHR ''{'' # r) new (xs @ ys) = xs @ str_replace (CHR ''{'' # r) new ys"
  by (induction xs) (auto simp: startswith_def)

lemma str_replace_skip2:
  "CHR ''{'' \<notin> set xs \<Longrightarrow> y \<noteq> CHR ''{'' \<Longrightarrow>
   str_replace (a # CHR ''{'' # r) new (xs @ y # ys)
     = xs @ str_replace (a # CHR ''{'' # r) new (y # ys)"
proof (induction xs)
  case Nil
  then show ?case by simp
next
  case (Cons x xs)
  then show ?case by (cases xs) (auto simp: startswith_def)
qed

lemma str_replace_skip3:
  assumes "CHR ''{'' \<notin> set xs" "c \<noteq> CHR ''{''" "CHR ''{'' \<notin> set zs" "y \<noteq> CHR ''{''"
  shows "str_replace (a # CHR ''{'' # r) new (xs @ c # zs @ y # ys)
           = xs @ c # zs @ str_replace (a # CHR ''{'' # r) new (y # ys)"
  using str_replace_skip2 [of "xs @ c # zs" y a r new ys] assms by simp

lemma brace_not_alnum: "\<not> isalnum CHR ''{''"
  by (simp add: isalnum_def)

lemma brace_notin_clean: "CHR ''{'' \<notin> set (clean_fname s)"
  by (auto simp: clean_fname_filter brace_not_alnum)

lemma digit_char_not_brace: "digit_char n \<noteq> CHR ''{''"
proof
  assume "digit_char n = CHR ''{''"
  then have "(of_char (digit_char n) :: nat) = of_char CHR ''{''" by simp
  moreover have "n mod 10 < 10" by simp
  ultimately show False by (simp add: of_char_of)
qed

lemma brace_notin_str_nat: "CHR ''{'' \<notin> set (str_nat n)"
proof (induction n rule: str_nat.induct)
  case (1 n)
  have d: "digit_char n \<noteq> CHR ''{''" by (rule digit_char_not_brace)
  show ?case
  proof (cases "n < 10")
    case True
    then show ?thesis using d by (subst str_nat.simps) (simp del: digit_char.simps)
  next
    case False
    then show ?thesis using d 1 by (subst str_nat.simps) (simp del: digit_char.simps)
  qed
qed

lemma brace_notin_str_int: "CHR ''{'' \<notin> set (str_int i)"
  by (simp add: str_int_def brace_notin_str_nat)

lemmas gen_names_unfold = gen_names_def Let_def startswith_def str_replace_skip
  brace_notin_str_int brace_notin_clean

lemma gen_names_None_None:
  assumes "CHR ''{'' \<notin> set g"
  shows "fst (gen_names f a d None g None) = path_join d (g @ ''.'' @ f)"
  using assms by (simp add: gen_names_unfold str_replace_skip2)

lemma gen_names_None_Some:
  assumes "CHR ''{'' \<notin> set g"
  shows "fst (gen_names f a d None g (Some i)) =
         path_join d (str_int i @ ''-'' @ g @ ''-'' @ clean_fname (basename a) @ ''.'' @ f)"
  using assms by (simp add: gen_names_unfold)

lemma gen_names_Some_None:
  assumes "CHR ''{'' \<notin> set g" "CHR ''{'' \<notin> set p" "p \<noteq> []"
  shows "fst (gen_names f a d (Some p) g None) = path_join d (p @ ''-'' @ g @ ''.'' @ f)"
  using assms by (simp add: gen_names_unfold str_replace_skip3)

lemma gen_names_Some_Some:
  assumes "CHR ''{'' \<notin> set g" "CHR ''{'' \<notin> set p" "p \<noteq> []"
  shows "fst (gen_names f a d (Some p) g (Some i)) =
         path_join d (p @ ''-'' @ str_int i @ ''-'' @ g @ ''-'' @ clean_fname (basename a) @ ''.'' @ f)"
  using assms by (simp add: gen_names_unfold)

lemma gen_names_empty_prefix: "gen_names f a d (Some []) g fi = gen_names f a d None g fi"
  by (simp add: gen_names_def)

lemma gen_names_rest: "snd (gen_names f a d sp g fi) = (basename a, clean_fname (basename a))"
  by (simp add: gen_names_def Let_def)

lemma gen_names_spec:
  assumes g: "CHR ''{'' \<notin> set g" and p: "\<And>p. sp = Some p \<Longrightarrow> CHR ''{'' \<notin> set p"
  shows "gen_names f a d sp g fi =
         (path_join d (spec_filename f sp g (clean_fname (basename a)) fi),
          basename a, clean_fname (basename a))"
proof -
  have "fst (gen_names f a d sp g fi) =
        path_join d (spec_filename f sp g (clean_fname (basename a)) fi)"
  proof (cases sp)
    case None
    then show ?thesis using g
      by (cases fi) (simp_all add: spec_filename_def gen_names_None_None gen_names_None_Some)
  next
    case (Some q)
    show ?thesis
    proof (cases "q = []")
      case True
      then show ?thesis using g Some
        by (cases fi)
          (simp_all add: spec_filename_def gen_names_empty_prefix gen_names_None_None
            gen_names_None_Some)
    next
      case False
      then show ?thesis using g Some p [OF Some]
        by (cases fi) (simp_all add: spec_filename_def gen_names_Some_None gen_names_Some_Some)
    qed
  qed
  then show ?thesis using gen_names_rest [of f a d sp g fi] by (simp add: prod_eq_iff)
qed

lemma map_of_dict_set: "map_of (dict_set d k v) k' = (if k' = k then Some v else map_of d k')"
  by (induction d) auto

lemma output_graph_show:
  assumes "map_of d ''showplt'' = Some sv" "truthy sv"
  shows "output_graph plt d path fig kw js = Inr (Show fig)"
  using assms by (simp add: output_graph_def bind_err_def dict_get_def)

lemma output_graph_written:
  assumes "output_graph plt d path fig kw js = Inr eff"
    and "map_of d ''showplt'' = Some sv" "\<not> truthy sv"
    and "map_of d ''json'' = Some jv"
  shows "written_path eff = Some (mode_path jv path)"
  using assms
  by (auto simp: output_graph_def bind_err_def dict_get_def Let_def mode_path_def
      split: sum.splits if_splits)

lemma process_pair_same_config:
  assumes "process_pair plt i n abs_fpath name m d = (d', r)"
  shows "same_config d d'"
  using assms
  by (auto simp: process_pair_def Let_def map_of_dict_set same_config_def
      split: sum.splits prod.splits)

lemma call_gen_names_prefix:
  "call_gen_names (PStr f) (PStr a) (PStr dir) (prefix_value sp) name fi
     = Inr (gen_names f a dir sp name fi)"
proof (cases sp)
  case None
  then show ?thesis by (simp add: call_gen_names_def bind_err_def prefix_value_def)
next
  case (Some p)
  then show ?thesis
    by (cases "p = []")
      (simp_all add: call_gen_names_def bind_err_def prefix_value_def gen_names_empty_prefix)
qed

lemma process_pair_written:
  assumes pp: "process_pair plt i n (PStr a) name m d = (d', Inr eff)"
    and "map_of d ''format'' = Some (PStr f)"
    and "map_of d ''save_dir'' = Some (PStr dir)"
    and "map_of d ''prefix'' = Some (prefix_value sp)"
    and "map_of d ''showplt'' = Some sv" "\<not> truthy sv"
    and "map_of d ''json'' = Some jv"
  shows "written_path eff =
           Some (mode_path jv (fst (gen_names f a dir sp name (if n > 1 then Some (int i) else None))))"
proof -
  let ?d = "dict_set (dict_set (dict_set d ''abs_fpath'' (PStr a)) ''fname''
              (PStr (fst (snd (gen_names f a dir sp name (if n > 1 then Some (int i) else None))))))
              ''cleaned_fname''
              (PStr (snd (snd (gen_names f a dir sp name (if n > 1 then Some (int i) else None)))))"
  have s: "map_of ?d ''showplt'' = Some sv" and j: "map_of ?d ''json'' = Some jv"
    using assms by (simp_all add: map_of_dict_set)
  from pp obtain fig kw js where
    "output_graph plt ?d (fst (gen_names f a dir sp name (if n > 1 then Some (int i) else None)))
       fig kw js = Inr eff"
    using assms(2-4)
    by (auto simp: process_pair_def bind_err_def dict_get_def call_gen_names_prefix Let_def
        split: sum.splits prod.splits)
  from output_graph_written [OF this s \<open>\<not> truthy sv\<close> j] show ?thesis .
qed

lemma has_config_same: "same_config d d' \<Longrightarrow> has_config d f dir sp sv jv \<Longrightarrow> has_config d' f dir sp sv jv"
  by (simp add: same_config_def has_config_def)

lemma graphtypes_loop_written:
  assumes "graphtypes_loop plt i n (PStr a) gts d done = (None, d', done')"
    and "has_config d f dir sp sv jv" and "\<not> truthy sv"
  shows "has_config d' f dir sp sv jv \<and>
         map written_path done' = map written_path done @
           map (\<lambda>(name, m). Some (mode_path jv
                  (fst (gen_names f a dir sp name (if n > 1 then Some (int i) else None))))) gts"
  using assms
proof (induction gts arbitrary: d "done")
  case Nil
  then show ?case by simp
next
  case (Cons g gts)
  obtain name m where g: "g = (name, m)" by (cases g)
  from Cons.prems(1) obtain d1 eff where
    pp: "process_pair plt i n (PStr a) name m d = (d1, Inr eff)"
    and rest: "graphtypes_loop plt i n (PStr a) gts d1 (done @ [eff]) = (None, d', done')"
    by (auto simp: g split: sum.splits prod.splits)
  have c1: "has_config d1 f dir sp sv jv"
    using has_config_same [OF process_pair_same_config [OF pp] Cons.prems(2)] .
  have w: "written_path eff = Some (mode_path jv
             (fst (gen_names f a dir sp name (if n > 1 then Some (int i) else None))))"
    using process_pair_written [OF pp] Cons.prems(2,3) by (simp add: has_config_def)
  from Cons.IH [OF rest c1 Cons.prems(3)] w show ?case by (simp add: g)
qed

lemma files_loop_written:
  assumes "files_loop plt gts i n (map PStr files) d done = (None, d', done')"
    and "has_config d f dir sp sv jv" and "\<not> truthy sv"
  shows "map written_path done' = map written_path done @
           concat (map (\<lambda>(k, a). map (\<lambda>(name, m). Some (mode_path jv
                  (fst (gen_names f a dir sp name (if n > 1 then Some (int k) else None))))) gts)
             (enumerate i files))"
  using assms
proof (induction files arbitrary: i d "done")
  case Nil
  then show ?case by simp
next
  case (Cons a files)
  from Cons.prems(1) obtain d1 done1 where
    gl: "graphtypes_loop plt i n (PStr a) gts d done = (None, d1, done1)"
    and rest: "files_loop plt gts (Suc i) n (map PStr files) d1 done1 = (None, d', done')"
    by (auto split: prod.splits option.splits)
  from graphtypes_loop_written [OF gl Cons.prems(2,3)]
  have c1: "has_config d1 f dir sp sv jv"
    and w: "map written_path done1 = map written_path done @
           map (\<lambda>(name, m). Some (mode_path jv
                  (fst (gen_names f a dir sp name (if n > 1 then Some (int i) else None))))) gts"
    by simp_all
  from Cons.IH [OF rest c1 Cons.prems(3)] w show ?case by simp
qed

lemma generate_graphs_written:
  assumes run: "generate_graphs graphs plt d = (None, effects)"
    and files: "map_of d ''files'' = Some (PList (map PStr files))"
    and cfg: "has_config d f dir sp sv jv" and "\<not> truthy sv"
    and sel: "select_graphtypes graphs d = Inr gts"
  shows "map written_path effects =
           concat (map (\<lambda>(k, a). map (\<lambda>(name, m). Some (mode_path jv
                  (fst (gen_names f a dir sp name
                     (if length files > 1 then Some (int k) else None))))) gts)
             (enumerate 0 files))"
proof -
  from run files sel obtain d' where
    "files_loop plt gts 0 (length files) (map PStr files) d [] = (None, d', effects)"
    by (auto simp: generate_graphs_def bind_err_def dict_get_def split: prod.splits)
  from files_loop_written [OF this cfg \<open>\<not> truthy sv\<close>] show ?thesis by simp
qed

text \<open>
  C1, as amended. Where neither the prefix nor a graph type's name contains a brace,
  \<open>gen_names\<close> returns the save directory joined with the segments in the order prefix,
  index, graph type, sanitised name, format: the prefix segment is there unless the prefix
  is absent or empty, and the index segment and the sanitised-name segment are there
  together, exactly when an index is given. A run of \<open>generate_graphs\<close> that saves files and
  ends normally writes, for the file at position \<open>index\<close> (from 0) and each graph type in
  turn, the path so named (in JSON mode with its extension replaced), with the index
  exactly when there is more than one file.
\<close>

theorem output_names_by_segments:
  assumes "generate_graphs graphs plt args_dict = (None, effects)"
    and "map_of args_dict ''files'' = Some (PList (map PStr files))"
    and "map_of args_dict ''format'' = Some (PStr ffrmt)"
    and "map_of args_dict ''save_dir'' = Some (PStr save_dir)"
    and "map_of args_dict ''prefix'' = Some (prefix_value save_prefix)"
    and "map_of args_dict ''showplt'' = Some showplt" and "\<not> truthy showplt"
    and "map_of args_dict ''json'' = Some json"
    and "select_graphtypes graphs args_dict = Inr graphtypes"
    and "list_all (\<lambda>(name, m). CHR ''{'' \<notin> set name) graphtypes"
    and "case save_prefix of None \<Rightarrow> True | Some p \<Rightarrow> CHR ''{'' \<notin> set p"
  shows "(\<forall>abs_fpath findex.
            list_all (\<lambda>(name, m).
                gen_names ffrmt abs_fpath save_dir save_prefix name findex =
                  (path_join save_dir
                     (spec_filename ffrmt save_prefix name (clean_fname (basename abs_fpath)) findex),
                   basename abs_fpath, clean_fname (basename abs_fpath)))
              graphtypes)
         \<and> map written_path effects =
             concat (map (\<lambda>(index, abs_fpath).
                 map (\<lambda>(name, m). Some (mode_path json (path_join save_dir
                        (spec_filename ffrmt save_prefix name (clean_fname (basename abs_fpath))
                           (if length files > 1 then Some (int index) else None)))))
                   graphtypes)
               (enumerate 0 files))"
proof -
  have names: "gen_names ffrmt a save_dir save_prefix name fi =
          (path_join save_dir (spec_filename ffrmt save_prefix name (clean_fname (basename a)) fi),
           basename a, clean_fname (basename a))"
    if "(name, m) \<in> set graphtypes" for name m a fi
  proof (rule gen_names_spec)
    show "CHR ''{'' \<notin> set name" using that assms(10) by (auto simp: list_all_iff)
    show "\<And>p. save_prefix = Some p \<Longrightarrow> CHR ''{'' \<notin> set p" using assms(11) by simp
  qed
  have cfg: "has_config args_dict ffrmt save_dir save_prefix showplt json"
    using assms(3-6,8) by (simp add: has_config_def)
  have "map written_path effects =
           concat (map (\<lambda>(k, a). map (\<lambda>(name, m). Some (mode_path json
                  (fst (gen_names ffrmt a save_dir save_prefix name
                     (if length files > 1 then Some (int k) else None))))) graphtypes)
             (enumerate 0 files))"
    by (rule generate_graphs_written [OF assms(1,2) cfg assms(7,9)])
  also have "\<dots> = concat (map (\<lambda>(index, abs_fpath).
                 map (\<lambda>(name, m). Some (mode_path json (path_join save_dir
                        (spec_filename ffrmt save_prefix name (clean_fname (basename abs_fpath))
                           (if length files > 1 then Some (int index) else None)))))
                   graphtypes)
               (enumerate 0 files))"
    by (intro arg_cong [where f = concat] map_cong refl) (auto simp: names)
  finally show ?thesis using names by (auto simp: list_all_iff)
qed

theorem output_names_by_segments_witness:
  "map written_path
     [Write ''/out/p-0-ent-abin.png'' (ImageFile []),
      Write ''/out/p-1-ent-bb.png'' (ImageFile []) :: nat effect]
   = [Some (path_join ''/out'' (spec_filename ''png'' (Some ''p'') ''ent''
              (clean_fname (basename ''/in/a.bin'')) (Some 0))),
      Some (path_join ''/out'' (spec_filename ''png'' (Some ''p'') ''ent''
              (clean_fname (basename ''/in/b.b'')) (Some 1)))]"
proof -
  let ?m = "\<lparr>generate = (\<lambda>d. Inr (0::nat, [], PNone)), args_validation = (\<lambda>d. None)\<rparr>"
  let ?plt = "\<lparr>set_size_inches = (\<lambda>s f. Inr f), tight_layout = (\<lambda>f. f),
               savefig = (\<lambda>f t fmt dpi kw. Inr [])\<rparr> :: nat backend"
  let ?d = "[(''files'', PList (map PStr [''/in/a.bin'', ''/in/b.b''])),
             (''prefix'', prefix_value (Some ''p'')),
             (''save_dir'', PStr ''/out''), (''json'', PBool False), (''showplt'', PBool False),
             (''format'', PStr ''png''), (''figsize'', PList [PInt 12, PInt 4]),
             (''dpi'', PInt 100), (''graphtype'', PStr ''ent'')]"
  have sel: "select_graphtypes [(''ent'', ?m)] ?d = Inr [(''ent'', ?m)]"
    by (simp add: select_graphtypes_def)
  have run: "generate_graphs [(''ent'', ?m)] ?plt ?d
      = (None, [Write ''/out/p-0-ent-abin.png'' (ImageFile []),
                Write ''/out/p-1-ent-bb.png'' (ImageFile [])])"
    by code_simp
  show ?thesis
    using output_names_by_segments [OF run _ _ _ _ _ _ _ sel, of "[''/in/a.bin'', ''/in/b.b'']"
        "''png''" "''/out''" "Some ''p''" "PBool False" "PBool False"]
    by (simp add: mode_path_def)
qed

text \<open>
  The claim as written fails for a run of one file: the name has no sanitised-name segment.
\<close>

theorem basename_segment_counterexample:
  "fst (gen_names ''png'' ''/in/a.bin'' ''/out'' None ''ent'' None) = ''/out/ent.png''
   \<and> clean_fname (basename ''/in/a.bin'') = ''abin''
   \<and> fst (gen_names ''png'' ''/in/a.bin'' ''/out'' None ''ent'' None)
       \<noteq> path_join ''/out'' (''ent'' @ ''-'' @ clean_fname (basename ''/in/a.bin'') @ ''.'' @ ''png'')"
  by code_simp

section \<open>Interactive display\<close>

lemma process_pair_show:
  assumes "process_pair plt i n abs_fpath name m d = (d', Inr eff)"
    and "map_of d ''showplt'' = Some sv" "truthy sv"
  shows "written_path eff = None"
proof -
  from assms(1) obtain path fig kw js where
    og: "output_graph plt d' path fig kw js = Inr eff"
    by (auto simp: process_pair_def bind_err_def Let_def split: sum.splits prod.splits)
  have "map_of d' ''showplt'' = Some sv"
    using process_pair_same_config [OF assms(1)] assms(2) by (simp add: same_config_def)
  from og output_graph_show [OF this assms(3), of plt path fig kw js] show ?thesis by auto
qed

lemma graphtypes_loop_show:
  assumes "graphtypes_loop plt i n abs_fpath gts d done = (r, d', done')"
    and "map_of d ''showplt'' = Some sv" "truthy sv"
    and "list_all (\<lambda>eff. written_path eff = None) done"
  shows "map_of d' ''showplt'' = Some sv \<and> list_all (\<lambda>eff. written_path eff = None) done'"
  using assms
proof (induction gts arbitrary: d "done")
  case Nil
  then show ?case by simp
next
  case (Cons g gts)
  obtain name m where g: "g = (name, m)" by (cases g)
  obtain d1 res where pp: "process_pair plt i n abs_fpath name m d = (d1, res)"
    by (cases "process_pair plt i n abs_fpath name m d")
  have s1: "map_of d1 ''showplt'' = Some sv"
    using process_pair_same_config [OF pp] Cons.prems(2) by (simp add: same_config_def)
  show ?case
  proof (cases res)
    case (Inl e)
    with Cons.prems pp s1 show ?thesis by (simp add: g)
  next
    case (Inr eff)
    have e1: "list_all (\<lambda>eff. written_path eff = None) (done @ [eff])"
      using process_pair_show [OF pp [unfolded Inr] Cons.prems(2,3)] Cons.prems(4) by simp
    from Cons.prems(1) have "graphtypes_loop plt i n abs_fpath gts d1 (done @ [eff]) = (r, d', done')"
      by (simp add: g pp Inr)
    from Cons.IH [OF this s1 Cons.prems(3) e1] show ?thesis .
  qed
qed

lemma files_loop_show:
  assumes "files_loop plt gts i n files d done = (r, d', done')"
    and "map_of d ''showplt'' = Some sv" "truthy sv"
    and "list_all (\<lambda>eff. written_path eff = None) done"
  shows "list_all (\<lambda>eff. written_path eff = None) done'"
  using assms
proof (induction files arbitrary: i d "done")
  case Nil
  then show ?case by simp
next
  case (Cons a files)
  obtain r1 d1 done1 where gl: "graphtypes_loop plt i n a gts d done = (r1, d1, done1)"
    by (cases "graphtypes_loop plt i n a gts d done") auto
  from graphtypes_loop_show [OF gl Cons.prems(2-4)]
  have s1: "map_of d1 ''showplt'' = Some sv"
    and e1: "list_all (\<lambda>eff. written_path eff = None) done1" by simp_all
  show ?case
  proof (cases r1)
    case None
    with Cons.prems(1) gl have "files_loop plt gts (Suc i) n files d1 done1 = (r, d', done')"
      by simp
    from Cons.IH [OF this s1 Cons.prems(3) e1] show ?thesis .
  next
    case (Some e)
    with Cons.prems(1) gl e1 show ?thesis by auto
  qed
qed

text \<open>
  C8. When \<open>showplt\<close> is set, a call of \<open>generate_graphs\<close> writes no file, whatever the
  format, the save directory and the JSON flag are, and however the call ends: every
  effect of the run is a display.
\<close>

theorem interactive_writes_nothing:
  assumes "map_of args_dict ''showplt'' = Some showplt" and "truthy showplt"
    and "generate_graphs graphs plt args_dict = (r, effects)"
  shows "list_all (\<lambda>eff. written_path eff = None) effects"
proof (cases "select_graphtypes graphs args_dict")
  case (Inl e)
  with assms(3) show ?thesis by (auto simp: generate_graphs_def)
next
  case (Inr gts)
  show ?thesis
  proof (cases "bind_err (dict_get args_dict ''files'') py_iter")
    case (Inl e)
    with assms(3) Inr show ?thesis by (auto simp: generate_graphs_def)
  next
    case files: (Inr files)
    with assms(3) Inr obtain d' where
      "files_loop plt gts 0 (length files) files args_dict [] = (r, d', effects)"
      by (auto simp: generate_graphs_def split: prod.splits)
    from files_loop_show [OF this assms(1,2)] show ?thesis by simp
  qed
qed

theorem interactive_writes_nothing_witness:
  "list_all (\<lambda>eff. written_path eff = None) [Show (0::nat), Show 0]"
proof -
  let ?m = "\<lparr>generate = (\<lambda>d. Inr (0::nat, [], PNone)), args_validation = (\<lambda>d. None)\<rparr>"
  let ?plt = "\<lparr>set_size_inches = (\<lambda>s f. Inr f), tight_layout = (\<lambda>f. f),
               savefig = (\<lambda>f t fmt dpi kw. Inr [])\<rparr> :: nat backend"
  let ?d = "[(''files'', PList [PStr ''/in/a.bin'', PStr ''/in/b.b'']), (''prefix'', PNone),
             (''save_dir'', PStr ''/out''), (''json'', PBool True), (''showplt'', PBool True),
             (''format'', PStr ''svg''), (''figsize'', PList [PInt 12, PInt 4]),
             (''dpi'', PInt 100), (''graphtype'', PStr ''ent'')]"
  have run: "generate_graphs [(''ent'', ?m)] ?plt ?d = (None, [Show 0, Show 0])"
    by code_simp
  show ?thesis
    using interactive_writes_nothing [OF _ _ run, of "PBool True"] by simp
qed

section \<open>A module that fails\<close>

lemma same_config_refl: "same_config d d"
  by (simp add: same_config_def)

lemma same_config_trans: "same_config d d1 \<Longrightarrow> same_config d1 d2 \<Longrightarrow> same_config d d2"
  by (simp add: same_config_def)

lemma graphtypes_loop_same_config:
  "graphtypes_loop plt i n a gts d done = (r, d', done') \<Longrightarrow> same_config d d'"
proof (induction gts arbitrary: d "done")
  case Nil
  then show ?case by (simp add: same_config_refl)
next
  case (Cons g gts)
  obtain name m where g: "g = (name, m)" by (cases g)
  obtain d1 res where pp: "process_pair plt i n a name m d = (d1, res)"
    by (cases "process_pair plt i n a name m d")
  have c: "same_config d d1" by (rule process_pair_same_config [OF pp])
  show ?case
  proof (cases res)
    case (Inl e)
    with Cons.prems pp c show ?thesis by (simp add: g)
  next
    case (Inr eff)
    with Cons.prems pp have "graphtypes_loop plt i n a gts d1 (done @ [eff]) = (r, d', done')"
      by (simp add: g)
    from same_config_trans [OF c Cons.IH [OF this]] show ?thesis .
  qed
qed

lemma files_loop_same_config:
  "files_loop plt gts i n files d done = (r, d', done') \<Longrightarrow> same_config d d'"
proof (induction files arbitrary: i d "done")
  case Nil
  then show ?case by (simp add: same_config_refl)
next
  case (Cons a files)
  obtain r1 d1 done1 where gl: "graphtypes_loop plt i n a gts d done = (r1, d1, done1)"
    by (cases "graphtypes_loop plt i n a gts d done") auto
  have c: "same_config d d1" by (rule graphtypes_loop_same_config [OF gl])
  show ?case
  proof (cases r1)
    case None
    with Cons.prems gl have "files_loop plt gts (Suc i) n files d1 done1 = (r, d', done')" by simp
    from same_config_trans [OF c Cons.IH [OF this]] show ?thesis .
  next
    case (Some e)
    with Cons.prems gl c show ?thesis by auto
  qed
qed

lemma graphtypes_loop_append:
  "graphtypes_loop plt i n a xs d done = (None, d1, done1) \<Longrightarrow>
   graphtypes_loop plt i n a (xs @ ys) d done = graphtypes_loop plt i n a ys d1 done1"
proof (induction xs arbitrary: d "done")
  case Nil
  then show ?case by simp
next
  case (Cons g xs)
  obtain name m where g: "g = (name, m)" by (cases g)
  from Cons.prems obtain d' eff where
    pp: "process_pair plt i n a name m d = (d', Inr eff)"
    and rest: "graphtypes_loop plt i n a xs d' (done @ [eff]) = (None, d1, done1)"
    by (auto simp: g split: prod.splits sum.splits)
  from Cons.IH [OF rest] pp show ?case by (simp add: g)
qed

lemma files_loop_append:
  "files_loop plt gts i n xs d done = (None, d1, done1) \<Longrightarrow>
   files_loop plt gts i n (xs @ ys) d done = files_loop plt gts (i + length xs) n ys d1 done1"
proof (induction xs arbitrary: i d "done")
  case Nil
  then show ?case by simp
next
  case (Cons a xs)
  from Cons.prems obtain d' done' where
    gl: "graphtypes_loop plt i n a gts d done = (None, d', done')"
    and rest: "files_loop plt gts (Suc i) n xs d' done' = (None, d1, done1)"
    by (auto split: prod.splits option.splits)
  from Cons.IH [OF rest] gl show ?case by simp
qed

lemma process_pair_generate_fails:
  assumes "map_of d ''format'' = Some (PStr f)"
    and "map_of d ''save_dir'' = Some (PStr dir)"
    and "map_of d ''prefix'' = Some (prefix_value sp)"
    and "generate m
           (dict_set (dict_set (dict_set d ''abs_fpath'' (PStr a))
              ''fname'' (PStr (basename a))) ''cleaned_fname'' (PStr (clean_fname (basename a))))
         = Inl e"
  shows "process_pair plt i n (PStr a) name m d =
         (dict_set (dict_set (dict_set d ''abs_fpath'' (PStr a))
              ''fname'' (PStr (basename a))) ''cleaned_fname'' (PStr (clean_fname (basename a))),
          Inl e)"
  using assms
  by (simp add: process_pair_def bind_err_def dict_get_def call_gen_names_prefix
      gen_names_def Let_def)

text \<open>
  C2, as amended. \<open>generate_graphs\<close> has no handler around \<open>module.generate\<close>. Take a run
  in which the files before some file, and for that file the graph types before some
  type, are processed without an exception, and the module's \<open>generate\<close> then fails for
  that file and type. The exception ends both loops there, whatever graph types and files
  are still to come: the run returns the exception with exactly the effects of the pairs
  before, nothing for the failed pair and nothing after it, and the dictionary holds the
  entries stored for the failed pair.
\<close>

theorem generate_failure_ends_run:
  assumes "map_of args_dict ''files''
             = Some (PList (map PStr (earlier_files @ abs_fpath # later_files)))"
    and "select_graphtypes graphs args_dict
           = Inr (earlier_types @ (module_name, module) # later_types)"
    and "map_of args_dict ''format'' = Some (PStr ffrmt)"
    and "map_of args_dict ''save_dir'' = Some (PStr save_dir)"
    and "map_of args_dict ''prefix'' = Some (prefix_value save_prefix)"
    and "nfiles = length (earlier_files @ abs_fpath # later_files)"
    and "files_loop plt (earlier_types @ (module_name, module) # later_types) 0 nfiles
           (map PStr earlier_files) args_dict [] = (None, d1, done1)"
    and "graphtypes_loop plt (length earlier_files) nfiles (PStr abs_fpath) earlier_types
           d1 done1 = (None, d2, done2)"
    and "generate module
           (dict_set (dict_set (dict_set d2 ''abs_fpath'' (PStr abs_fpath))
              ''fname'' (PStr (basename abs_fpath)))
              ''cleaned_fname'' (PStr (clean_fname (basename abs_fpath))))
         = Inl e"
  shows "generate_graphs graphs plt args_dict = (Some e, done2)
         \<and> files_loop plt (earlier_types @ (module_name, module) # later_types) 0 nfiles
             (map PStr (earlier_files @ abs_fpath # later_files)) args_dict []
           = (Some e,
              dict_set (dict_set (dict_set d2 ''abs_fpath'' (PStr abs_fpath))
                ''fname'' (PStr (basename abs_fpath)))
                ''cleaned_fname'' (PStr (clean_fname (basename abs_fpath))),
              done2)"
proof -
  let ?gts = "earlier_types @ (module_name, module) # later_types"
  let ?d3 = "dict_set (dict_set (dict_set d2 ''abs_fpath'' (PStr abs_fpath))
                ''fname'' (PStr (basename abs_fpath)))
                ''cleaned_fname'' (PStr (clean_fname (basename abs_fpath)))"
  have c: "same_config args_dict d2"
    using same_config_trans [OF files_loop_same_config [OF assms(7)]
        graphtypes_loop_same_config [OF assms(8)]] .
  have pp: "process_pair plt (length earlier_files) nfiles (PStr abs_fpath) module_name module d2
              = (?d3, Inl e)"
    using c assms(3-5) by (intro process_pair_generate_fails [OF _ _ _ assms(9)])
      (simp_all add: same_config_def)
  have gl: "graphtypes_loop plt (length earlier_files) nfiles (PStr abs_fpath) ?gts d1 done1
              = (Some e, ?d3, done2)"
    using graphtypes_loop_append [OF assms(8)] pp by simp
  have fl: "files_loop plt ?gts 0 nfiles (map PStr (earlier_files @ abs_fpath # later_files))
              args_dict [] = (Some e, ?d3, done2)"
    using files_loop_append [OF assms(7), of "map PStr (abs_fpath # later_files)"] gl by simp
  have "generate_graphs graphs plt args_dict = (Some e, done2)"
    using fl assms(1,2,6) by (simp add: generate_graphs_def bind_err_def dict_get_def)
  with fl show ?thesis by simp
qed

theorem generate_failure_ends_run_witness:
  "generate_graphs
     [(''ent'', \<lparr>generate = (\<lambda>d. Inr (0::nat, [], PNone)), args_validation = (\<lambda>d. None)\<rparr>),
      (''hist'', \<lparr>generate = (\<lambda>d. if map_of d ''fname'' = Some (PStr ''bad.bin'')
                                  then Inl (ModuleError ''bad'') else Inr (0::nat, [], PNone)),
                args_validation = (\<lambda>d. None)\<rparr>)]
     \<lparr>set_size_inches = (\<lambda>s f. Inr f), tight_layout = (\<lambda>f. f),
        savefig = (\<lambda>f t fmt dpi kw. Inr [])\<rparr>
     [(''files'', PList [PStr ''/in/good.bin'', PStr ''/in/bad.bin'', PStr ''/in/other.bin'']),
      (''prefix'', PNone), (''save_dir'', PStr ''/out''), (''json'', PBool False),
      (''showplt'', PBool False), (''format'', PStr ''png''),
      (''figsize'', PList [PInt 12, PInt 4]), (''dpi'', PInt 100), (''graphtype'', PStr ''all'')]
   = (Some (ModuleError ''bad''),
      [Write ''/out/0-ent-goodbin.png'' (ImageFile []),
       Write ''/out/0-hist-goodbin.png'' (ImageFile []),
       Write ''/out/1-ent-badbin.png'' (ImageFile [])])"
proof -
  let ?ent = "\<lparr>generate = (\<lambda>d. Inr (0::nat, [], PNone)), args_validation = (\<lambda>d. None)\<rparr>"
  let ?hist = "\<lparr>generate = (\<lambda>d. if map_of d ''fname'' = Some (PStr ''bad.bin'')
                                  then Inl (ModuleError ''bad'') else Inr (0::nat, [], PNone)),
                args_validation = (\<lambda>d. None)\<rparr>"
  let ?plt = "\<lparr>set_size_inches = (\<lambda>s f. Inr f), tight_layout = (\<lambda>f. f),
        savefig = (\<lambda>f t fmt dpi kw. Inr [])\<rparr> :: nat backend"
  let ?d = "[(''files'', PList (map PStr ([''/in/good.bin''] @ ''/in/bad.bin'' # [''/in/other.bin'']))),
      (''prefix'', PNone), (''save_dir'', PStr ''/out''), (''json'', PBool False),
      (''showplt'', PBool False), (''format'', PStr ''png''),
      (''figsize'', PList [PInt 12, PInt 4]), (''dpi'', PInt 100), (''graphtype'', PStr ''all'')]"
  let ?d1 = "[(''files'', PList [PStr ''/in/good.bin'', PStr ''/in/bad.bin'', PStr ''/in/other.bin'']),
      (''prefix'', PNone), (''save_dir'', PStr ''/out''), (''json'', PBool False),
      (''showplt'', PBool False), (''format'', PStr ''png''),
      (''figsize'', PList [PInt 12, PInt 4]), (''dpi'', PInt 100), (''graphtype'', PStr ''all''),
      (''abs_fpath'', PStr ''/in/good.bin''), (''fname'', PStr ''good.bin''),
      (''cleaned_fname'', PStr ''goodbin'')]"
  let ?d2 = "[(''files'', PList [PStr ''/in/good.bin'', PStr ''/in/bad.bin'', PStr ''/in/other.bin'']),
      (''prefix'', PNone), (''save_dir'', PStr ''/out''), (''json'', PBool False),
      (''showplt'', PBool False), (''format'', PStr ''png''),
      (''figsize'', PList [PInt 12, PInt 4]), (''dpi'', PInt 100), (''graphtype'', PStr ''all''),
      (''abs_fpath'', PStr ''/in/bad.bin''), (''fname'', PStr ''bad.bin''),
      (''cleaned_fname'', PStr ''badbin'')]"
  let ?done1 = "[Write ''/out/0-ent-goodbin.png'' (ImageFile []),
                 Write ''/out/0-hist-goodbin.png'' (ImageFile [])] :: nat effect list"
  let ?done2 = "[Write ''/out/0-ent-goodbin.png'' (ImageFile []),
                 Write ''/out/0-hist-goodbin.png'' (ImageFile []),
                 Write ''/out/1-ent-badbin.png'' (ImageFile [])] :: nat effect list"
  have h1: "map_of ?d ''files''
      = Some (PList (map PStr ([''/in/good.bin''] @ ''/in/bad.bin'' # [''/in/other.bin''])))"
    by simp
  have h2: "select_graphtypes [(''ent'', ?ent), (''hist'', ?hist)] ?d
      = Inr ([(''ent'', ?ent)] @ (''hist'', ?hist) # [])"
    by (simp add: select_graphtypes_def)
  have h3: "map_of ?d ''format'' = Some (PStr ''png'')" by simp
  have h4: "map_of ?d ''save_dir'' = Some (PStr ''/out'')" by simp
  have h5: "map_of ?d ''prefix'' = Some (prefix_value None)" by (simp add: prefix_value_def)
  have h6: "(3::nat) = length ([''/in/good.bin''] @ ''/in/bad.bin'' # [''/in/other.bin''])"
    by simp
  have h7: "files_loop ?plt ([(''ent'', ?ent)] @ (''hist'', ?hist) # []) 0 3
              (map PStr [''/in/good.bin'']) ?d [] = (None, ?d1, ?done1)"
    by code_simp
  have h8: "graphtypes_loop ?plt (length [''/in/good.bin'']) 3 (PStr ''/in/bad.bin'')
              [(''ent'', ?ent)] ?d1 ?done1 = (None, ?d2, ?done2)"
    by code_simp
  have h9: "generate ?hist
           (dict_set (dict_set (dict_set ?d2 ''abs_fpath'' (PStr ''/in/bad.bin''))
              ''fname'' (PStr (basename ''/in/bad.bin'')))
              ''cleaned_fname'' (PStr (clean_fname (basename ''/in/bad.bin''))))
         = Inl (ModuleError ''bad'')"
    by (simp add: basename_def after_last_slash_def map_of_dict_set)
  show ?thesis
    using conjunct1 [OF generate_failure_ends_run [OF h1 h2 h3 h4 h5 h6 h7 h8 h9]] by simp
qed

text \<open>
  The claim as written fails: with two files of which the module rejects the first, the
  run ends with the module's exception and writes nothing, though the second file alone is
  processed without error.
\<close>

theorem continue_after_failure_counterexample:
  "generate_graphs
     [(''ent'', \<lparr>generate = (\<lambda>d. if map_of d ''fname'' = Some (PStr ''bad.bin'')
                                 then Inl (ModuleError ''bad'') else Inr (0::nat, [], PNone)),
               args_validation = (\<lambda>d. None)\<rparr>)]
     \<lparr>set_size_inches = (\<lambda>s f. Inr f), tight_layout = (\<lambda>f. f),
        savefig = (\<lambda>f t fmt dpi kw. Inr [])\<rparr>
     [(''files'', PList [PStr ''/in/bad.bin'', PStr ''/in/good.bin'']), (''prefix'', PNone),
      (''save_dir'', PStr ''/out''), (''json'', PBool False), (''showplt'', PBool False),
      (''format'', PStr ''png''), (''figsize'', PList [PInt 12, PInt 4]),
      (''dpi'', PInt 100), (''graphtype'', PStr ''ent'')]
   = (Some (ModuleError ''bad''), [])
   \<and> generate_graphs
     [(''ent'', \<lparr>generate = (\<lambda>d. if map_of d ''fname'' = Some (PStr ''bad.bin'')
                                 then Inl (ModuleError ''bad'') else Inr (0::nat, [], PNone)),
               args_validation = (\<lambda>d. None)\<rparr>)]
     \<lparr>set_size_inches = (\<lambda>s f. Inr f), tight_layout = (\<lambda>f. f),
        savefig = (\<lambda>f t fmt dpi kw. Inr [])\<rparr>
     [(''files'', PList [PStr ''/in/good.bin'', PStr ''/in/good.bin'']), (''prefix'', PNone),
      (''save_dir'', PStr ''/out''), (''json'', PBool False), (''showplt'', PBool False),
      (''format'', PStr ''png''), (''figsize'', PList [PInt 12, PInt 4]),
      (''dpi'', PInt 100), (''graphtype'', PStr ''ent'')]
   = (None, [Write ''/out/0-ent-goodbin.png'' (ImageFile []),
             Write ''/out/1-ent-goodbin.png'' (ImageFile [])])"
  by code_simp

section \<open>An empty list of files\<close>

text \<open>
  C3, as amended. Neither \<open>main\<close> nor \<open>generate_graphs\<close> tests the list of files for
  emptiness. When the inputs resolve to no file (and the save directory exists and the
  modules accept the arguments), \<open>main\<close> processes no pair, writes nothing and returns
  normally; so does \<open>generate_graphs\<close> on the empty list.
\<close>

theorem empty_file_list_ends_normally:
  assumes "gather_files fs files (truthy recurse) = Inr []"
    and "map_of args ''files'' = Some (PList (map PStr files))"
    and "map_of args ''recurse'' = Some recurse"
    and "map_of args ''save_dir'' = Some (PStr save_dir)"
    and "isdir fs (abspath fs save_dir)"
    and "select_graphtypes graphs args = Inr graphtypes"
    and "validate_all graphtypes
           (dict_set (dict_set args ''files'' (PList [])) ''save_dir'' (PStr (abspath fs save_dir)))
         = None"
  shows "main fs graphs plt args = (None, [])
         \<and> generate_graphs graphs plt
               (dict_set (dict_set args ''files'' (PList [])) ''save_dir'' (PStr (abspath fs save_dir)))
             = (None, [])"
proof -
  let ?args = "dict_set (dict_set args ''files'' (PList [])) ''save_dir'' (PStr (abspath fs save_dir))"
  have strs: "as_str_list (PList (map PStr xs)) = Inr xs" for xs
    by (induction xs) (simp_all add: bind_err_def)
  have sel: "select_graphtypes graphs ?args = Inr graphtypes"
    using assms(6) by (simp add: select_graphtypes_def map_of_dict_set)
  have run: "generate_graphs graphs plt ?args = (None, [])"
    using sel by (simp add: generate_graphs_def bind_err_def dict_get_def map_of_dict_set)
  have sd: "map_of (dict_set args ''files'' (PList [])) ''save_dir'' = Some (PStr save_dir)"
    using assms(4) by (simp add: map_of_dict_set)
  show ?thesis
    using assms(1-3,5,7) sel run sd
    by (simp add: main_def bind_err_def dict_get_def strs Let_def)
qed

theorem empty_file_list_ends_normally_witness:
  "main \<lparr>root = Dir [(''out'', Dir []), (''empty.bin'', File True [])], cwd = ''/''\<rparr>
     [(''ent'', \<lparr>generate = (\<lambda>d. Inr (0::nat, [], PNone)), args_validation = (\<lambda>d. None)\<rparr>)]
     \<lparr>set_size_inches = (\<lambda>s f. Inr f), tight_layout = (\<lambda>f. f), savefig = (\<lambda>f t fmt dpi kw. Inr [])\<rparr>
     [(''files'', PList [PStr ''empty.bin'']), (''recurse'', PBool False), (''prefix'', PNone),
      (''save_dir'', PStr ''out''), (''json'', PBool False), (''showplt'', PBool False),
      (''format'', PStr ''png''), (''figsize'', PList [PInt 12, PInt 4]),
      (''dpi'', PInt 100), (''graphtype'', PStr ''ent'')]
   = (None, [])"
proof -
  let ?fs = "\<lparr>root = Dir [(''out'', Dir []), (''empty.bin'', File True [])], cwd = ''/''\<rparr>"
  let ?m = "\<lparr>generate = (\<lambda>d. Inr (0::nat, [], PNone)), args_validation = (\<lambda>d. None)\<rparr>"
  let ?d = "[(''files'', PList (map PStr [''empty.bin''])), (''recurse'', PBool False), (''prefix'', PNone),
      (''save_dir'', PStr ''out''), (''json'', PBool False), (''showplt'', PBool False),
      (''format'', PStr ''png''), (''figsize'', PList [PInt 12, PInt 4]),
      (''dpi'', PInt 100), (''graphtype'', PStr ''ent'')]"
  have g: "gather_files ?fs [''empty.bin''] (truthy (PBool False)) = Inr []" by code_simp
  have f: "map_of ?d ''files'' = Some (PList (map PStr [''empty.bin'']))" by simp
  have r: "map_of ?d ''recurse'' = Some (PBool False)" by simp
  have s: "map_of ?d ''save_dir'' = Some (PStr ''out'')" by simp
  have i: "isdir ?fs (abspath ?fs ''out'')" by code_simp
  have sel: "select_graphtypes [(''ent'', ?m)] ?d = Inr [(''ent'', ?m)]"
    by (simp add: select_graphtypes_def)
  have v: "validate_all [(''ent'', ?m)]
           (dict_set (dict_set ?d ''files'' (PList [])) ''save_dir'' (PStr (abspath ?fs ''out'')))
         = None" by simp
  show ?thesis
    using empty_file_list_ends_normally [OF g f r s i sel v] by simp
qed

text \<open>
  The claim as written fails: one input that names no file resolves to the empty list,
  and the run ends without any error.
\<close>

theorem empty_file_list_counterexample:
  "gather_files \<lparr>root = Dir [(''out'', Dir [])], cwd = ''/''\<rparr> [''missing.bin''] False = Inr []
   \<and> main \<lparr>root = Dir [(''out'', Dir [])], cwd = ''/''\<rparr>
     [(''ent'', \<lparr>generate = (\<lambda>d. Inr (0::nat, [], PNone)), args_validation = (\<lambda>d. None)\<rparr>)]
     \<lparr>set_size_inches = (\<lambda>s f. Inr f), tight_layout = (\<lambda>f. f), savefig = (\<lambda>f t fmt dpi kw. Inr [])\<rparr>
     [(''files'', PList [PStr ''missing.bin'']), (''recurse'', PBool False), (''prefix'', PNone),
      (''save_dir'', PStr ''/out''), (''json'', PBool False), (''showplt'', PBool False),
      (''format'', PStr ''png''), (''figsize'', PList [PInt 12, PInt 4]),
      (''dpi'', PInt 100), (''graphtype'', PStr ''ent'')]
   = (None, [])"
  by code_simp

section \<open>Base64 decoding undoes encoding\<close>

lemma b64chars_length: "length b64chars = 64"
  by (simp add: b64chars_def)

lemma b64chars_distinct: "distinct b64chars"
  by (simp add: b64chars_def)

lemma b64index_b64char:
  assumes "n < 64"
  shows "b64index (b64char n) = Some n"
proof -
  have "map_of (zip b64chars [0..<64]) (b64chars ! n) = Some ([0..<64] ! n)"
    using assms by (intro map_of_zip_nth) (simp_all add: b64chars_length b64chars_distinct)
  then show ?thesis using assms by (simp add: b64index_def b64char_def)
qed

lemma b64char_not_pad:
  assumes "n < 64"
  shows "b64char n \<noteq> CHR ''=''"
proof -
  have "b64char n \<in> set b64chars"
    using assms by (simp add: b64char_def b64chars_length)
  moreover have "CHR ''='' \<notin> set b64chars" by (simp add: b64chars_def)
  ultimately show ?thesis by auto
qed

lemma unat_byte_less: "unat (a :: byte) < 256"
  using unsigned_less [of a, where ?'a = nat] by simp

lemma sextets:
  fixes x y z :: nat
  assumes "x < 256" "y < 256" "z < 256"
  shows "x div 4 < 64" "x mod 4 * 16 + y div 16 < 64" "y mod 16 * 4 + z div 64 < 64"
    "z mod 64 < 64" "x mod 4 * 16 < 64" "y mod 16 * 4 < 64"
  using assms by auto

lemma regroup1: "(y::nat) < 256 \<Longrightarrow> x div 4 * 4 + (x mod 4 * 16 + y div 16) div 16 = x"
  by simp

lemma regroup2:
  "(y::nat) < 256 \<Longrightarrow> z < 256 \<Longrightarrow>
   (x mod 4 * 16 + y div 16) mod 16 * 16 + (y mod 16 * 4 + z div 64) div 4 = y"
  by simp

lemma regroup3: "(z::nat) < 256 \<Longrightarrow> (y mod 16 * 4 + z div 64) mod 4 * 64 + z mod 64 = z"
  by simp

lemma regroup4: "(x::nat) div 4 * 4 + (x mod 4 * 16) div 16 = x"
  by simp

lemma regroup5:
  "(y::nat) < 256 \<Longrightarrow> (x mod 4 * 16 + y div 16) mod 16 * 16 + (y mod 16 * 4) div 4 = y"
  by simp

lemma b64decode_group:
  assumes "p < 64" "q < 64" "r < 64" "s < 64"
  shows "b64decode (b64char p # b64char q # b64char r # b64char s # cs) =
         map_option (\<lambda>bs. of_nat (p * 4 + q div 16) # of_nat (q mod 16 * 16 + r div 4)
                          # of_nat (r mod 4 * 64 + s) # bs) (b64decode cs)"
  using assms
  by (cases cs) (auto simp: b64index_b64char b64char_not_pad split: option.splits)

lemma b64decode_b64encode: "b64decode (b64encode bs) = Some bs"
proof (induction bs rule: b64encode.induct)
  case 1
  show ?case by simp
next
  case (2 a)
  have "unat a < 256" by (rule unat_byte_less)
  then show ?case
    using sextets [of "unat a" 0 0] regroup4 [of "unat a"]
    by (simp add: b64index_b64char b64char_not_pad)
next
  case (3 a b)
  have ab: "unat a < 256" "unat b < 256" by (rule unat_byte_less)+
  then show ?case
    using sextets [of "unat a" "unat b" 0] regroup1 [of "unat b" "unat a"] regroup5 [of "unat b" "unat a"]
    by (simp add: b64index_b64char b64char_not_pad)
next
  case (4 a b c bs)
  have abc: "unat a < 256" "unat b < 256" "unat c < 256" by (rule unat_byte_less)+
  then show ?case
    using sextets [of "unat a" "unat b" "unat c"] regroup1 [of "unat b" "unat a"] regroup2 [of "unat b" "unat c" "unat a"]
      regroup3 [of "unat c" "unat b"] 4
    by (simp add: b64decode_group)
qed

section \<open>The JSON document\<close>

lemma output_graph_json:
  assumes "map_of d ''showplt'' = Some sv" "\<not> truthy sv"
    and "map_of d ''json'' = Some jv" "truthy jv"
    and "map_of d ''format'' = Some frmt" and "map_of d ''dpi'' = Some dpi"
    and "savefig plt fig Buffer frmt dpi kw = Inr buf"
  shows "output_graph plt d path fig kw js =
         Inr (Write (fst (splitext path) @ ''.json'')
               (JsonFile [(''info'', js),
                          (''graph'', PStr (b64encode buf)),
                          (''cmdline'', PStr (str_join '' '' (map fst d))),
                          (''version'', version)]))"
  using assms by (simp add: output_graph_def bind_err_def dict_get_def)

lemma output_graph_file:
  assumes "map_of d ''showplt'' = Some sv" "\<not> truthy sv"
    and "map_of d ''json'' = Some jv" "\<not> truthy jv"
    and "map_of d ''format'' = Some frmt" and "map_of d ''dpi'' = Some dpi"
    and "savefig plt fig (Path path) frmt dpi kw = Inr img"
  shows "output_graph plt d path fig kw js = Inr (Write path (ImageFile img))"
  using assms by (simp add: output_graph_def bind_err_def dict_get_def)

lemma output_graph_JsonFile:
  assumes "output_graph plt d path fig kw js = Inr (Write p (JsonFile doc))"
  shows "\<exists>frmt dpi buf. map_of d ''format'' = Some frmt \<and> map_of d ''dpi'' = Some dpi
           \<and> savefig plt fig Buffer frmt dpi kw = Inr buf
           \<and> map_of doc ''graph'' = Some (PStr (b64encode buf))"
  using assms
  by (auto simp: output_graph_def bind_err_def dict_get_def
      split: option.splits if_splits sum.splits)

lemma output_graph_ImageFile:
  assumes "output_graph plt d path fig kw js = Inr (Write p (ImageFile img))"
  shows "\<exists>frmt dpi. map_of d ''format'' = Some frmt \<and> map_of d ''dpi'' = Some dpi
           \<and> savefig plt fig (Path path) frmt dpi kw = Inr img \<and> p = path"
  using assms
  by (auto simp: output_graph_def bind_err_def dict_get_def
      split: option.splits if_splits sum.splits)

text \<open>
  C4, as amended. Take the output step on one figure, with the same save options, once
  under a configuration that writes the JSON document and once under one that writes the
  image file, both with the same format and dpi. The two modes call \<open>savefig\<close> separately:
  JSON mode renders into a buffer, file mode to the path. The \<open>graph\<close> entry of the
  document is the Base64 text of the bytes rendered into the buffer, and decoding it gives
  exactly those bytes back. They are the bytes of the image file exactly when the backend
  renders the same to the buffer as to the path.
\<close>

theorem json_graph_decodes_to_buffer_bytes:
  assumes "output_graph plt json_args path fig save_kwargs json_data
             = Inr (Write json_path (JsonFile doc))"
    and "output_graph plt file_args path fig save_kwargs json_data
             = Inr (Write file_path (ImageFile img))"
    and "map_of json_args ''format'' = map_of file_args ''format''"
    and "map_of json_args ''dpi'' = map_of file_args ''dpi''"
  shows "\<exists>frmt dpi buf.
           map_of file_args ''format'' = Some frmt \<and> map_of file_args ''dpi'' = Some dpi
           \<and> savefig plt fig Buffer frmt dpi save_kwargs = Inr buf
           \<and> savefig plt fig (Path path) frmt dpi save_kwargs = Inr img
           \<and> map_of doc ''graph'' = Some (PStr (b64encode buf))
           \<and> b64decode (b64encode buf) = Some buf
           \<and> (b64decode (b64encode buf) = Some img \<longleftrightarrow>
                savefig plt fig Buffer frmt dpi save_kwargs
                  = savefig plt fig (Path path) frmt dpi save_kwargs)"
proof -
  from output_graph_JsonFile [OF assms(1)] obtain frmt dpi buf where
    j: "map_of json_args ''format'' = Some frmt" "map_of json_args ''dpi'' = Some dpi"
      "savefig plt fig Buffer frmt dpi save_kwargs = Inr buf"
      "map_of doc ''graph'' = Some (PStr (b64encode buf))"
    by blast
  from output_graph_ImageFile [OF assms(2)] j(1,2) assms(3,4) have
    f: "savefig plt fig (Path path) frmt dpi save_kwargs = Inr img"
    by auto
  show ?thesis using j f assms(3,4) by (auto simp: b64decode_b64encode)
qed

theorem json_graph_decodes_to_buffer_bytes_witness:
  "\<exists>frmt dpi buf.
     map_of [(''showplt'', PBool False), (''json'', PBool False), (''format'', PStr ''png''),
             (''dpi'', PInt 100)] ''format'' = Some frmt
     \<and> map_of [(''showplt'', PBool False), (''json'', PBool False), (''format'', PStr ''png''),
               (''dpi'', PInt 100)] ''dpi'' = Some dpi
     \<and> (Inr [1, 2, 3] :: error + byte list) = Inr buf
     \<and> map_of [(''info'', PNone), (''graph'', PStr ''AQID''),
               (''cmdline'', PStr ''showplt json format dpi''), (''version'', version)] ''graph''
         = Some (PStr (b64encode buf))
     \<and> b64decode (b64encode buf) = Some [1, 2, 3]"
proof -
  let ?plt = "\<lparr>set_size_inches = (\<lambda>s f. Inr f), tight_layout = (\<lambda>f. f),
               savefig = (\<lambda>f t fmt dpi kw. Inr [1, 2, 3])\<rparr> :: nat backend"
  let ?j = "[(''showplt'', PBool False), (''json'', PBool True), (''format'', PStr ''png''),
             (''dpi'', PInt 100)]"
  let ?f = "[(''showplt'', PBool False), (''json'', PBool False), (''format'', PStr ''png''),
             (''dpi'', PInt 100)]"
  have j: "output_graph ?plt ?j ''/out/ent.png'' 0 [] PNone
      = Inr (Write ''/out/ent.json''
          (JsonFile [(''info'', PNone), (''graph'', PStr ''AQID''),
                     (''cmdline'', PStr ''showplt json format dpi''), (''version'', version)]))"
    by code_simp
  have f: "output_graph ?plt ?f ''/out/ent.png'' 0 [] PNone
      = Inr (Write ''/out/ent.png'' (ImageFile [1, 2, 3]))"
    by code_simp
  from json_graph_decodes_to_buffer_bytes [OF j f] show ?thesis by auto
qed

text \<open>
  The claim as written fails for a backend that renders differently to a path than to a
  buffer, as a PostScript writer does that puts the name of its target into the output:
  the payload of the JSON document decodes to the bytes rendered into the buffer, which are
  not the bytes of the image file written for the same figure, format, dpi and options.
\<close>

theorem json_payload_counterexample:
  "output_graph
     \<lparr>set_size_inches = (\<lambda>s f. Inr f), tight_layout = (\<lambda>f. f),
        savefig = (\<lambda>f t fmt dpi kw. Inr (case t of Buffer \<Rightarrow> [1] | Path p \<Rightarrow> [2]))\<rparr>
     [(''showplt'', PBool False), (''json'', PBool True), (''format'', PStr ''ps''),
      (''dpi'', PInt 100)] ''/out/ent.ps'' (0::nat) [] PNone
   = Inr (Write ''/out/ent.json''
       (JsonFile [(''info'', PNone), (''graph'', PStr ''AQ==''),
                  (''cmdline'', PStr ''showplt json format dpi''), (''version'', version)]))
   \<and> b64decode ''AQ=='' = Some [1]
   \<and> output_graph
     \<lparr>set_size_inches = (\<lambda>s f. Inr f), tight_layout = (\<lambda>f. f),
        savefig = (\<lambda>f t fmt dpi kw. Inr (case t of Buffer \<Rightarrow> [1] | Path p \<Rightarrow> [2]))\<rparr>
     [(''showplt'', PBool False), (''json'', PBool False), (''format'', PStr ''ps''),
      (''dpi'', PInt 100)] ''/out/ent.ps'' (0::nat) [] PNone
   = Inr (Write ''/out/ent.ps'' (ImageFile [2]))"
  by code_simp

text \<open>
  C7, on the code. In JSON mode the document is written at the computed path with the
  extension replaced by \<open>.json\<close> and has the keys \<open>info\<close>, \<open>graph\<close>, \<open>cmdline\<close>,
  \<open>version\<close>, as \<open>output_graph_json\<close> shows. Its \<open>cmdline\<close> entry, however, is the
  names of the options joined by spaces, with none of their values: the run below, of one
  file in JSON mode, shows the document written.
\<close>

theorem cmdline_lists_option_names_only:
  "generate_graphs
     [(''ent'', \<lparr>generate = (\<lambda>d. Inr (0::nat, [], PNone)), args_validation = (\<lambda>d. None)\<rparr>)]
     \<lparr>set_size_inches = (\<lambda>s f. Inr f), tight_layout = (\<lambda>f. f),
        savefig = (\<lambda>f t fmt dpi kw. Inr [1, 2, 3])\<rparr>
     [(''files'', PList [PStr ''/in/a.bin'']), (''prefix'', PNone),
      (''save_dir'', PStr ''/out''), (''json'', PBool True), (''showplt'', PBool False),
      (''format'', PStr ''png''), (''figsize'', PList [PInt 12, PInt 4]),
      (''dpi'', PInt 100), (''graphtype'', PStr ''ent'')]
   = (None,
      [Write ''/out/ent.json''
         (JsonFile
            [(''info'', PNone), (''graph'', PStr ''AQID''),
             (''cmdline'', PStr ''files prefix save_dir json showplt format figsize dpi graphtype abs_fpath fname cleaned_fname''),
             (''version'', PDict [(''codename'', PStr ''Iron Airedale''),
                                  (''digit'', PFloat 34 (- 1))])])])"
  by code_simp

section \<open>List files\<close>

lemma universal_newlines_skip:
  "CHR 0x0D \<notin> set l \<Longrightarrow> universal_newlines (l @ s) = l @ universal_newlines s"
proof (induction l)
  case Nil
  show ?case by simp
next
  case (Cons c l)
  then show ?case by (cases "l @ s") auto
qed

lemma universal_newlines_id: "CHR 0x0D \<notin> set s \<Longrightarrow> universal_newlines s = s"
  using universal_newlines_skip [of s "[]"] by simp

lemma universal_newlines_LF:
  "universal_newlines (CHR 0x0A # s) = CHR 0x0A # universal_newlines s"
  by (cases s) auto

lemma universal_newlines_no_CR: "CHR 0x0D \<notin> set (universal_newlines s)"
  by (induction s rule: universal_newlines.induct) auto

lemma universal_newlines_ends:
  assumes "list_all (\<lambda>(l, e). CHR 0x0D \<notin> set l \<and> (e = [CHR 0x0A] \<or> e = [CHR 0x0D, CHR 0x0A])) ls"
    and "CHR 0x0D \<notin> set rest"
  shows "universal_newlines (concat (map (\<lambda>(l, e). l @ e) ls) @ rest)
           = concat (map (\<lambda>(l, e). l @ [CHR 0x0A]) ls) @ rest"
  using assms
proof (induction ls)
  case Nil
  then show ?case by (simp add: universal_newlines_id)
next
  case (Cons p ls)
  obtain l e where p: "p = (l, e)" by (cases p)
  from Cons.prems have l: "CHR 0x0D \<notin> set l" and e: "e = [CHR 0x0A] \<or> e = [CHR 0x0D, CHR 0x0A]"
    by (simp_all add: p)
  have IH: "universal_newlines (concat (map (\<lambda>(l, e). l @ e) ls) @ rest)
           = concat (map (\<lambda>(l, e). l @ [CHR 0x0A]) ls) @ rest"
    using Cons by simp
  from e show ?case
  proof
    assume "e = [CHR 0x0A]"
    then show ?thesis using l IH by (simp add: p universal_newlines_skip universal_newlines_LF)
  next
    assume "e = [CHR 0x0D, CHR 0x0A]"
    then show ?thesis using l IH by (simp add: p universal_newlines_skip)
  qed
qed

lemma readlines_line:
  "CHR 0x0A \<notin> set l \<Longrightarrow> readlines (l @ CHR 0x0A # rest) = (l @ [CHR 0x0A]) # readlines rest"
  by (induction l) auto

lemma readlines_last:
  "CHR 0x0A \<notin> set l \<Longrightarrow> readlines l = (if l = [] then [] else [l])"
  by (induction l) (auto split: list.splits)

lemma readlines_lines:
  "list_all (\<lambda>l. CHR 0x0A \<notin> set l) ls \<Longrightarrow> CHR 0x0A \<notin> set rest \<Longrightarrow>
   readlines (concat (map (\<lambda>l. l @ [CHR 0x0A]) ls) @ rest)
     = map (\<lambda>l. l @ [CHR 0x0A]) ls @ (if rest = [] then [] else [rest])"
  by (induction ls) (simp_all add: readlines_line readlines_last)

lemma readlines_empty: "readlines t = [] \<longleftrightarrow> t = []"
  by (cases t) (auto split: list.splits)

lemma rstrip_nl_Cons: "c \<noteq> CHR 0x0A \<Longrightarrow> rstrip_nl (c # l) = c # rstrip_nl l"
  by (simp add: rstrip_nl_def dropWhile_append)

lemma rstrip_nl_last: "CHR 0x0A \<notin> set l \<Longrightarrow> rstrip_nl l = l"
proof -
  assume a: "CHR 0x0A \<notin> set l"
  then have "dropWhile (\<lambda>c. c = CHR 0x0A) (rev l) = rev l"
    by (cases "rev l") (auto simp: rev_eq_Cons_iff)
  then show ?thesis by (simp add: rstrip_nl_def)
qed

lemma rstrip_nl_line: "CHR 0x0A \<notin> set l \<Longrightarrow> rstrip_nl (l @ [CHR 0x0A]) = l"
proof -
  assume a: "CHR 0x0A \<notin> set l"
  then have "dropWhile (\<lambda>c. c = CHR 0x0A) (rev l) = rev l"
    by (cases "rev l") (auto simp: rev_eq_Cons_iff)
  then show ?thesis by (simp add: rstrip_nl_def)
qed

lemma stripped_lines:
  "list_all (\<lambda>l. CHR 0x0A \<notin> set l) (map rstrip_nl (readlines t))
   \<and> concat (map (\<lambda>l. l @ [CHR 0x0A]) (map rstrip_nl (readlines t))) = newline_ended t"
proof (induction t)
  case Nil
  show ?case by (simp add: newline_ended_def)
next
  case (Cons c t)
  show ?case
  proof (cases "c = CHR 0x0A")
    case True
    then show ?thesis using Cons
      by (cases "t = []") (simp_all add: newline_ended_def rstrip_nl_def)
  next
    case False
    show ?thesis
    proof (cases "readlines t")
      case Nil
      then have "t = []" by (simp add: readlines_empty)
      then show ?thesis using False by (simp add: newline_ended_def rstrip_nl_Cons rstrip_nl_def)
    next
      case (Cons l ls)
      then have "t \<noteq> []" using readlines_empty [of t] by auto
      then show ?thesis using False Cons Cons.IH
        by (simp add: newline_ended_def rstrip_nl_Cons)
    qed
  qed
qed

lemma in_concat_lines:
  "l \<in> set xs \<Longrightarrow> c \<in> set l \<Longrightarrow> c \<in> set (concat (map (\<lambda>l. l @ [n]) xs))"
  by (induction xs) auto

lemma File2Strings_readable:
  assumes "stat fs listfile = Some (File True content)"
  shows "File2Strings fs listfile
           = (Some (map rstrip_nl (readlines (universal_newlines content))), [])"
  using assms by (simp add: File2Strings_def exists_def isfile_def)

text \<open>
  C5, as amended. An input \<open>@listfile\<close> whose file can be read resolves to the lines of
  the file as text mode reads them (a line ends at \<open>\n\<close>, at \<open>\r\n\<close> or at a single
  \<open>\r\<close>, all read as \<open>\n\<close>), each without its line end, in the order of the file: every
  line, the empty ones too (as empty paths). So the lines hold no line end, and put
  together again, each followed by \<open>\n\<close>, they are the text of the file; for a file of
  lines ended by \<open>\n\<close> or \<open>\r\n\<close> (the last line may lack its end) they are those lines.
  The lines are taken as they are, whatever they name and whether or not \<open>recurse\<close> is set.
\<close>

theorem listfile_gives_its_lines:
  assumes "stat fs listfile = Some (File True content)"
  shows "\<exists>lines.
           gather_files fs [CHR ''@'' # listfile] recurse = Inr lines
           \<and> list_all (\<lambda>l. CHR 0x0A \<notin> set l \<and> CHR 0x0D \<notin> set l) lines
           \<and> concat (map (\<lambda>l. l @ [CHR 0x0A]) lines) = newline_ended (universal_newlines content)
           \<and> (\<forall>ls rest.
                 content = concat (map (\<lambda>(l, e). l @ e) ls) @ rest
                 \<and> list_all (\<lambda>(l, e). CHR 0x0A \<notin> set l \<and> CHR 0x0D \<notin> set l
                                \<and> (e = [CHR 0x0A] \<or> e = [CHR 0x0D, CHR 0x0A])) ls
                 \<and> CHR 0x0A \<notin> set rest \<and> CHR 0x0D \<notin> set rest
                 \<longrightarrow> lines = map fst ls @ (if rest = [] then [] else [rest]))"
proof -
  let ?t = "universal_newlines content"
  let ?lines = "map rstrip_nl (readlines ?t)"
  have g: "gather_files fs [CHR ''@'' # listfile] recurse = Inr ?lines"
    using File2Strings_readable [OF assms] by (simp add: startswith_def bind_err_def)
  have nl: "list_all (\<lambda>l. CHR 0x0A \<notin> set l) ?lines"
    and cc: "concat (map (\<lambda>l. l @ [CHR 0x0A]) ?lines) = newline_ended ?t"
    using stripped_lines [of ?t] by simp_all
  have "CHR 0x0D \<notin> set (newline_ended ?t)"
    using universal_newlines_no_CR [of content] by (simp add: newline_ended_def)
  then have "CHR 0x0D \<notin> set (concat (map (\<lambda>l. l @ [CHR 0x0A]) ?lines))"
    unfolding cc .
  then have "CHR 0x0D \<notin> set l" if "l \<in> set ?lines" for l
    using in_concat_lines [OF that] by blast
  with nl have clean: "list_all (\<lambda>l. CHR 0x0A \<notin> set l \<and> CHR 0x0D \<notin> set l) ?lines"
    by (simp add: list_all_iff)
  have explicit: "?lines = map fst ls @ (if rest = [] then [] else [rest])"
    if c: "content = concat (map (\<lambda>(l, e). l @ e) ls) @ rest"
      and ls: "list_all (\<lambda>(l, e). CHR 0x0A \<notin> set l \<and> CHR 0x0D \<notin> set l
                                \<and> (e = [CHR 0x0A] \<or> e = [CHR 0x0D, CHR 0x0A])) ls"
      and r: "CHR 0x0A \<notin> set rest" "CHR 0x0D \<notin> set rest"
    for ls rest
  proof -
    have "list_all (\<lambda>(l, e). CHR 0x0D \<notin> set l \<and> (e = [CHR 0x0A] \<or> e = [CHR 0x0D, CHR 0x0A])) ls"
      using ls by (auto simp: list_all_iff)
    from universal_newlines_ends [OF this r(2)]
    have "?t = concat (map (\<lambda>l. l @ [CHR 0x0A]) (map fst ls)) @ rest"
      by (simp add: c comp_def case_prod_unfold)
    moreover have n: "list_all (\<lambda>l. CHR 0x0A \<notin> set l) (map fst ls)"
      using ls by (auto simp: list_all_iff)
    ultimately have "readlines ?t
        = map (\<lambda>l. l @ [CHR 0x0A]) (map fst ls) @ (if rest = [] then [] else [rest])"
      using readlines_lines [OF n r(1)] by simp
    moreover have "map rstrip_nl (map (\<lambda>l. l @ [CHR 0x0A]) (map fst ls)) = map fst ls"
      using n by (induction ls) (simp_all add: rstrip_nl_line)
    ultimately show ?thesis using r(1) by (simp add: rstrip_nl_last)
  qed
  show ?thesis
    using g clean cc explicit by blast
qed

theorem listfile_gives_its_lines_witness:
  "gather_files
     \<lparr>root = Dir [(''list.txt'',
                    File True (concat (map (\<lambda>(l, e). l @ e)
                                 [(''a.bin'', [CHR 0x0A]), (''b.bin'', [CHR 0x0D, CHR 0x0A])])
                               @ ''c'')),
                 (''a.bin'', Dir [(''inner'', File True ''x'')])],
      cwd = ''/''\<rparr>
     [''@list.txt''] True
   = Inr [''a.bin'', ''b.bin'', ''c'']"
proof -
  let ?ls = "[(''a.bin'', [CHR 0x0A]), (''b.bin'', [CHR 0x0D, CHR 0x0A])]"
  let ?c = "concat (map (\<lambda>(l, e). l @ e) ?ls) @ ''c''"
  let ?fs = "\<lparr>root = Dir [(''list.txt'', File True ?c),
                 (''a.bin'', Dir [(''inner'', File True ''x'')])],
      cwd = ''/''\<rparr>"
  have s: "stat ?fs ''list.txt'' = Some (File True ?c)"
    by code_simp
  from listfile_gives_its_lines [OF s, of True] obtain lines where
    g: "gather_files ?fs [''@list.txt''] True = Inr lines"
    and e: "\<And>ls rest. ?c = concat (map (\<lambda>(l, e). l @ e) ls) @ rest
                 \<and> list_all (\<lambda>(l, e). CHR 0x0A \<notin> set l \<and> CHR 0x0D \<notin> set l
                                \<and> (e = [CHR 0x0A] \<or> e = [CHR 0x0D, CHR 0x0A])) ls
                 \<and> CHR 0x0A \<notin> set rest \<and> CHR 0x0D \<notin> set rest
                 \<Longrightarrow> lines = map fst ls @ (if rest = [] then [] else [rest])"
    by auto
  have "lines = map fst ?ls @ (if ''c'' = [] then [] else [''c''])"
    by (rule e) simp
  with g show ?thesis by simp
qed

text \<open>
  The claim as written fails: an empty line of the list file is kept, as the empty path.
\<close>

theorem listfile_empty_line_counterexample:
  "gather_files
     \<lparr>root = Dir [(''list.txt'', File True (''a.bin'' @ [CHR 0x0A, CHR 0x0A] @ ''b.bin'' @ [CHR 0x0A]))],
      cwd = ''/''\<rparr>
     [''@list.txt''] False
   = Inr [''a.bin'', '''', ''b.bin'']"
  by code_simp

section \<open>Paths found under a directory\<close>

text \<open>
  C6, on the code. The branch for a literal file returns \<open>os.path.abspath(f)\<close>. The
  branch that walks a directory returns \<open>os.path.join(dir_name, fname)\<close>, which is
  relative when the directory was given by a relative path: with the working directory
  \<open>/home/u\<close>, the input \<open>data\<close> gives \<open>data/x.bin\<close>, while the same file given
  literally gives \<open>/home/u/data/x.bin\<close>.
\<close>

theorem walked_paths_not_absolute:
  "fst (find_files
     \<lparr>root = Dir [(''home'', Dir [(''u'', Dir [(''data'', Dir [(''x.bin'', File True ''abc'')])])])],
      cwd = ''/home/u''\<rparr>
     [''data''] True) = [''data/x.bin'']
   \<and> \<not> isabs ''data/x.bin''
   \<and> fst (find_files
     \<lparr>root = Dir [(''home'', Dir [(''u'', Dir [(''data'', Dir [(''x.bin'', File True ''abc'')])])])],
      cwd = ''/home/u''\<rparr>
     [''data/x.bin''] True) = [''/home/u/data/x.bin'']"
  by code_simp

section \<open>Resolving a path in the tree\<close>

lemma split_slash_nonempty: "split_slash s \<noteq> []"
  by (induction s) (auto split: list.splits)

lemma split_slash_append:
  "split_slash (a @ CHR ''/'' # b) = split_slash a @ split_slash b"
proof (induction a)
  case Nil
  show ?case by simp
next
  case (Cons c a)
  then show ?case using split_slash_nonempty [of a] by (auto split: list.splits)
qed

lemma split_slash_name: "CHR ''/'' \<notin> set n \<Longrightarrow> split_slash n = [n]"
  by (induction n) auto

lemma path_step_name:
  assumes "follow cur = Some (Dir es)" "valid_name n" "map_of es n = Some ch"
  shows "path_step (Some (cur # up)) n = Some (ch # Dir es # up)"
  using assms by (simp add: valid_name_def)

lemma path_step_empty_inv:
  assumes "path_step S [] = Some (cur # up)"
  shows "\<exists>c0 es. S = Some (c0 # up) \<and> follow c0 = Some (Dir es) \<and> cur = Dir es"
proof (cases S)
  case None
  with assms show ?thesis by simp
next
  case (Some st)
  with assms show ?thesis
    by (cases st) (auto split: option.splits node.splits)
qed

lemma endswith_slash: "endswith s ''/'' \<longleftrightarrow> (\<exists>t. s = t @ ''/'')"
proof
  assume "endswith s ''/''"
  then have "1 \<le> length s" "drop (length s - 1) s = ''/''" by (simp_all add: endswith_def)
  then have "s = take (length s - 1) s @ ''/''" by (metis append_take_drop_id)
  then show "\<exists>t. s = t @ ''/''" ..
next
  assume "\<exists>t. s = t @ ''/''"
  then show "endswith s ''/''" by (auto simp: endswith_def)
qed

lemma endswith_last: "endswith s ''/'' \<longleftrightarrow> s \<noteq> [] \<and> last s = CHR ''/''"
proof (cases s rule: rev_cases)
  case Nil
  then show ?thesis by (simp add: endswith_def)
next
  case (snoc t c)
  then show ?thesis by (auto simp: endswith_def)
qed

lemma isabs_append: "p \<noteq> [] \<Longrightarrow> isabs (p @ q) = isabs p"
  by (cases p) (simp_all add: isabs_def startswith_def)

lemma path_join_name:
  assumes "top_dir \<noteq> []" "valid_name n"
  shows "path_join top_dir n = top_dir @ (if endswith top_dir ''/'' then [] else ''/'') @ n"
proof -
  have "\<not> startswith n ''/''"
    using assms(2) by (cases n) (auto simp: valid_name_def startswith_def)
  then show ?thesis using assms(1) by (simp add: path_join_def)
qed

lemma resolve_child:
  assumes res: "foldl path_step (Some [root fs]) (split_slash F) = Some (cur # up)"
    and fol: "follow cur = Some (Dir es)"
    and ch: "map_of es n = Some ch" and n: "valid_name n"
  shows "\<exists>up'. foldl path_step (Some [root fs])
                 (split_slash (F @ (if endswith F ''/'' then [] else ''/'') @ n))
               = Some (ch # up')"
proof -
  have sn: "split_slash n = [n]" using n by (simp add: split_slash_name valid_name_def)
  show ?thesis
  proof (cases "endswith F ''/''")
    case True
    then obtain G where G: "F = G @ ''/''" by (auto simp: endswith_slash)
    from res have "path_step (foldl path_step (Some [root fs]) (split_slash G)) []
                     = Some (cur # up)"
      by (simp add: G split_slash_append)
    from path_step_empty_inv [OF this] obtain c0 es0 where
      g: "foldl path_step (Some [root fs]) (split_slash G) = Some (c0 # up)"
      and f0: "follow c0 = Some (Dir es0)" and c: "cur = Dir es0" by blast
    from fol c have "es0 = es" by simp
    with f0 have "path_step (Some (c0 # up)) n = Some (ch # Dir es # up)"
      using path_step_name [OF _ n ch] by simp
    then show ?thesis using True g by (simp add: G split_slash_append sn)
  next
    case False
    have "path_step (Some (cur # up)) n = Some (ch # Dir es # up)"
      by (rule path_step_name [OF fol n ch])
    then show ?thesis using False res by (simp add: split_slash_append sn)
  qed
qed

lemma lstat_child:
  assumes st: "stat fs top_dir = Some (Dir es)"
    and ch: "map_of es n = Some ch" and n: "valid_name n"
  shows "lstat fs (path_join top_dir n) = Some ch"
proof -
  let ?F = "if isabs top_dir then top_dir else cwd fs @ ''/'' @ top_dir"
  let ?sep = "if endswith top_dir ''/'' then [] else ''/''"
  have ne: "top_dir \<noteq> []" using st by (auto simp: stat_def lstat_def)
  obtain cur up where res: "foldl path_step (Some [root fs]) (split_slash ?F) = Some (cur # up)"
    and fol: "follow cur = Some (Dir es)"
    using st ne by (auto simp: stat_def lstat_def split: option.splits list.splits if_splits)
  have e: "endswith ?F ''/'' = endswith top_dir ''/''"
    using ne by (simp add: endswith_last)
  have pj: "path_join top_dir n = top_dir @ ?sep @ n" by (rule path_join_name [OF ne n])
  have "(if isabs (top_dir @ ?sep @ n) then top_dir @ ?sep @ n
         else cwd fs @ ''/'' @ top_dir @ ?sep @ n) = ?F @ ?sep @ n"
    using isabs_append [OF ne, of "?sep @ n"] by simp
  moreover from resolve_child [OF res fol ch n] e obtain up' where
    "foldl path_step (Some [root fs]) (split_slash (?F @ ?sep @ n)) = Some (ch # up')"
    by auto
  ultimately show ?thesis using ne by (simp add: lstat_def pj)
qed

section \<open>Walking a directory\<close>

lemma keep_file_child:
  assumes "stat fs top_dir = Some (Dir es)" "map_of es n = Some ch" "valid_name n"
  shows "keep_file fs (path_join top_dir n) \<longleftrightarrow> (\<exists>r c. ch = File r c \<and> c \<noteq> [])"
proof -
  have l: "lstat fs (path_join top_dir n) = Some ch" by (rule lstat_child [OF assms])
  show ?thesis
  proof (cases ch)
    case (File r c)
    then show ?thesis using l by (simp add: keep_file_def isfile_def islink_def st_size_def stat_def)
  next
    case (Dir es')
    then show ?thesis using l by (simp add: keep_file_def isfile_def stat_def)
  next
    case (Link t)
    then show ?thesis using l by (simp add: keep_file_def islink_def)
  qed
qed

lemma stat_child_dir:
  assumes "stat fs top_dir = Some (Dir es)" "map_of es n = Some (Dir es')" "valid_name n"
  shows "stat fs (path_join top_dir n) = Some (Dir es')"
  using lstat_child [OF assms] by (simp add: stat_def)

lemma wf_entries_member:
  "wf_entries es \<Longrightarrow> (n, ch) \<in> set es \<Longrightarrow> valid_name n \<and> wf_node ch"
  by (induction es) auto

lemma walk_dirs_Cons:
  "fst (walk_dirs fs ((dir_name, dirs, files) # rest))
     = fst (walk_files fs dir_name files) @ fst (walk_dirs fs rest)"
  by (simp split: prod.splits)

lemma walk_dirs_append:
  "fst (walk_dirs fs (xs @ ys)) = fst (walk_dirs fs xs) @ fst (walk_dirs fs ys)"
  by (induction xs) (auto split: prod.splits)

lemma walk_files_plain:
  assumes "\<And>n ch. (n, ch) \<in> set es \<Longrightarrow>
             (keep_file fs (path_join top_dir n) \<longleftrightarrow> (\<exists>r c. ch = File r c \<and> c \<noteq> []))"
  shows "fst (walk_files fs top_dir (map fst (filter (\<lambda>(name, n). \<not> is_dir_entry n) es)))
           = map (path_join top_dir) (plain_files es)"
  using assms
proof (induction es)
  case Nil
  show ?case by (simp add: plain_files_def)
next
  case (Cons e es)
  obtain n ch where e: "e = (n, ch)" by (cases e)
  have k: "keep_file fs (path_join top_dir n) \<longleftrightarrow> (\<exists>r c. ch = File r c \<and> c \<noteq> [])"
    using Cons.prems [of n ch] by (simp add: e)
  have IH: "fst (walk_files fs top_dir (map fst (filter (\<lambda>(name, n). \<not> is_dir_entry n) es)))
           = map (path_join top_dir) (plain_files es)"
    using Cons.IH Cons.prems by simp
  show ?case
  proof (cases ch)
    case (File r c)
    then show ?thesis using k IH
      by (auto simp: e plain_files_def is_dir_entry_def Let_def split: prod.splits)
  next
    case (Dir es')
    then show ?thesis using IH by (simp add: e plain_files_def is_dir_entry_def)
  next
    case (Link t)
    then show ?thesis using k IH
      by (auto simp: e plain_files_def is_dir_entry_def Let_def split: prod.splits option.splits node.splits)
  qed
qed

lemma below_Cons: "below top_dir (n # ns) = below (path_join top_dir n) ns"
  by (simp add: below_def)

lemma walk_tree:
  shows "node = Dir es \<Longrightarrow> stat fs top_dir = Some (Dir es) \<Longrightarrow> wf_node (Dir es) \<Longrightarrow>
         fst (walk_dirs fs (walk_node top_dir node)) = map (below top_dir) (tree_files node)"
    and "(\<And>n ch. (n, ch) \<in> set entries \<Longrightarrow>
            valid_name n \<and> wf_node ch \<and>
            (\<forall>es'. ch = Dir es' \<longrightarrow> stat fs (path_join top_dir n) = Some ch)) \<Longrightarrow>
         fst (walk_dirs fs (walk_entries top_dir entries))
           = map (below top_dir) (subtree_files entries)"
proof (induction top_dir node and top_dir entries arbitrary: es rule: walk_node_walk_entries.induct)
  case (1 top_dir entries)
  then have es: "es = entries" by simp
  have st: "stat fs top_dir = Some (Dir entries)" and d: "distinct (map fst entries)"
    and w: "wf_entries entries" using "1.prems" by (simp_all add: es)
  have mem: "valid_name n \<and> wf_node ch \<and> map_of entries n = Some ch"
    if "(n, ch) \<in> set entries" for n ch
    using wf_entries_member [OF w that] d that by simp
  have files: "fst (walk_files fs top_dir
                 (map fst (filter (\<lambda>(name, n). \<not> is_dir_entry n) entries)))
               = map (path_join top_dir) (plain_files entries)"
    by (rule walk_files_plain) (use mem st keep_file_child in blast)
  have sub: "fst (walk_dirs fs (walk_entries top_dir entries))
               = map (below top_dir) (subtree_files entries)"
  proof (rule "1.IH")
    fix n ch assume "(n, ch) \<in> set entries"
    from mem [OF this] stat_child_dir [OF st]
    show "valid_name n \<and> wf_node ch \<and>
          (\<forall>es'. ch = Dir es' \<longrightarrow> stat fs (path_join top_dir n) = Some ch)"
      by auto
  qed
  show ?case using files sub
    by (simp add: walk_dirs_Cons below_def comp_def del: walk_dirs.simps)
next
  case (2 top_dir r c)
  then show ?case by simp
next
  case (3 top_dir t)
  then show ?case by simp
next
  case (4 top_dir)
  show ?case by simp
next
  case (5 top_dir name n entries)
  have rest: "fst (walk_dirs fs (walk_entries top_dir entries))
                = map (below top_dir) (subtree_files entries)"
    by (rule "5.IH"(2)) (use "5.prems" in auto)
  have hd: "valid_name name \<and> wf_node n \<and>
            (\<forall>es'. n = Dir es' \<longrightarrow> stat fs (path_join top_dir name) = Some n)"
    using "5.prems" [of name n] by simp
  show ?case
  proof (cases n)
    case (Dir es')
    have sub: "fst (walk_dirs fs (walk_node (path_join top_dir name) n))
            = map (below (path_join top_dir name)) (tree_files n)"
      using "5.IH"(1) [OF Dir Dir] hd Dir by simp
    have we: "walk_entries top_dir ((name, n) # entries)
                = walk_node (path_join top_dir name) n @ walk_entries top_dir entries"
      by (simp only: walk_entries.simps Dir node.case)
    have sf: "subtree_files ((name, n) # entries)
                = map ((#) name) (tree_files n) @ subtree_files entries"
      by (simp only: subtree_files.simps Dir node.case)
    have "map (below top_dir) (map ((#) name) (tree_files n))
            = map (below (path_join top_dir name)) (tree_files n)"
      by (simp add: below_Cons comp_def)
    then show ?thesis
      by (simp only: we sf walk_dirs_append sub rest map_append)
  next
    case (File r c)
    then show ?thesis using rest by simp
  next
    case (Link t)
    then show ?thesis using rest by simp
  qed
qed

lemma walk_files_kept: "p \<in> set (fst (walk_files fs dir_name files)) \<Longrightarrow> keep_file fs p"
  by (induction files arbitrary: p) (auto simp: Let_def split: prod.splits if_splits)

lemma walk_dirs_kept: "p \<in> set (fst (walk_dirs fs triples)) \<Longrightarrow> keep_file fs p"
proof (induction triples arbitrary: p)
  case Nil
  then show ?case by simp
next
  case (Cons t triples)
  obtain d ds ns where t: "t = (d, ds, ns)" by (cases t)
  from Cons.prems have "p \<in> set (fst (walk_files fs d ns)) \<or> p \<in> set (fst (walk_dirs fs triples))"
    by (simp only: t walk_dirs_Cons set_append Un_iff)
  then show ?case using walk_files_kept Cons.IH by blast
qed

lemma keep_file_regular:
  "keep_file fs p \<Longrightarrow> isfile fs p \<and> \<not> islink fs p \<and> \<not> isdir fs p \<and> st_size fs p \<noteq> Some 0"
  by (auto simp: keep_file_def isfile_def isdir_def split: option.splits node.splits)

lemma find_files_append:
  "find_files fs (xs @ ys) recurse =
     (fst (find_files fs xs recurse) @ fst (find_files fs ys recurse),
      snd (find_files fs xs recurse) @ snd (find_files fs ys recurse))"
  by (induction xs) (auto simp: Let_def split: prod.splits)

lemma find_files_skip:
  assumes "\<not> (recurse \<and> isdir fs f)" "\<not> keep_file fs f"
  shows "find_files fs [f] recurse = ([], [(CRITICAL, ''Not a file, skipping: '' @ quoted f)])"
  using assms by auto

lemma find_files_dir:
  assumes "stat fs f = Some (Dir es)"
  shows "fst (find_files fs [f] True) = fst (walk_dirs fs (walk_node f (Dir es)))"
  using assms by (simp add: isdir_def os_walk_def split: prod.splits del: walk_node.simps)

lemma follow_not_link: "follow n \<noteq> Some (Link t)"
  by (induction n rule: follow.induct) auto

lemma walk_dirs_log:
  "snd (walk_dirs fs (walk_node f (Dir es))) \<noteq> [(CRITICAL, msg)]"
  by (simp split: prod.splits)

lemma find_files_skipped_iff:
  "find_files fs [g] recurse = ([], [(CRITICAL, ''Not a file, skipping: '' @ quoted g)])
     \<longleftrightarrow> skipped_input fs recurse g"
proof (cases "recurse \<and> isdir fs g")
  case True
  then obtain es where st: "stat fs g = Some (Dir es)"
    by (auto simp: isdir_def split: option.splits node.splits)
  have walked: "find_files fs [g] recurse = walk_dirs fs (walk_node g (Dir es))"
    using True st by (simp add: os_walk_def split: prod.splits del: walk_node.simps)
  have "find_files fs [g] recurse \<noteq> ([], [(CRITICAL, ''Not a file, skipping: '' @ quoted g)])"
    using walk_dirs_log [of fs g es "''Not a file, skipping: '' @ quoted g"] walked
    by (metis snd_conv)
  moreover have "\<not> skipped_input fs recurse g"
    using True st follow_not_link
    by (auto simp: skipped_input_def stat_def is_dir_entry_def split: option.splits node.splits)
  ultimately show ?thesis by simp
next
  case False
  show ?thesis
  proof (cases "keep_file fs g")
    case True
    then have "find_files fs [g] recurse \<noteq> ([], [(CRITICAL, ''Not a file, skipping: '' @ quoted g)])"
      using False by (auto simp: Let_def)
    moreover have "\<not> skipped_input fs recurse g"
      using True
      by (auto simp: skipped_input_def keep_file_def isfile_def islink_def st_size_def stat_def
          split: option.splits node.splits)
    ultimately show ?thesis by simp
  next
    case nk: False
    have "find_files fs [g] recurse = ([], [(CRITICAL, ''Not a file, skipping: '' @ quoted g)])"
      using False nk by auto
    moreover have "skipped_input fs recurse g"
      using False nk follow_not_link
      by (auto simp: skipped_input_def keep_file_def isfile_def islink_def isdir_def st_size_def
          stat_def is_dir_entry_def split: option.splits node.splits)
    ultimately show ?thesis by simp
  qed
qed

text \<open>
  C9, as amended. Let the input \<open>f\<close> name a directory, be it through a link (whose tree
  has valid entry names, none twice in a directory), and let recursion be on. Then
  \<open>find_files\<close> returns exactly the non-empty regular files of the tree that are not links,
  each by its path under \<open>f\<close>, in the order of the walk; every path returned is a regular
  file, not a link and not a directory. An input contributes no path and the one message
  at level CRITICAL exactly when it is a path that names nothing, an empty regular file, a
  directory given without recursion, or a link other than one that resolves to a directory
  and is given with recursion. The other inputs of the call are resolved as they would be
  alone.
\<close>

theorem directory_walk_and_skips:
  assumes "stat fs f = Some (Dir entries)" and "wf_node (Dir entries)"
  shows "fst (find_files fs [f] True) = map (below f) (tree_files (Dir entries))
    \<and> list_all (\<lambda>p. isfile fs p \<and> \<not> islink fs p \<and> \<not> isdir fs p \<and> st_size fs p \<noteq> Some 0)
         (fst (find_files fs [f] True))
    \<and> (\<forall>g recurse.
          find_files fs [g] recurse = ([], [(CRITICAL, ''Not a file, skipping: '' @ quoted g)])
            \<longleftrightarrow> skipped_input fs recurse g)
    \<and> (\<forall>xs ys recurse. find_files fs (xs @ ys) recurse =
          (fst (find_files fs xs recurse) @ fst (find_files fs ys recurse),
           snd (find_files fs xs recurse) @ snd (find_files fs ys recurse)))"
proof -
  have a: "fst (find_files fs [f] True) = map (below f) (tree_files (Dir entries))"
    using walk_tree(1) [OF refl assms] find_files_dir [OF assms(1)] by simp
  have b: "list_all (\<lambda>p. isfile fs p \<and> \<not> islink fs p \<and> \<not> isdir fs p \<and> st_size fs p \<noteq> Some 0)
         (fst (find_files fs [f] True))"
    unfolding list_all_iff find_files_dir [OF assms(1)]
    using walk_dirs_kept keep_file_regular by blast
  show ?thesis using a b find_files_skipped_iff find_files_append by blast
qed

theorem directory_walk_and_skips_witness:
  "fst (find_files
     \<lparr>root = Dir [(''d'', Dir [(''empty'', File True []),
                               (''link'', Link (Some (File True ''target''))),
                               (''real.bin'', File True ''abc''),
                               (''sub'', Dir [(''deep.bin'', File True ''x'')])])],
      cwd = ''/''\<rparr> [''d''] True)
   = [''d/real.bin'', ''d/sub/deep.bin'']"
proof -
  let ?es = "[(''empty'', File True []), (''link'', Link (Some (File True ''target''))),
              (''real.bin'', File True ''abc''), (''sub'', Dir [(''deep.bin'', File True ''x'')])]"
  let ?fs = "\<lparr>root = Dir [(''d'', Dir ?es)], cwd = ''/''\<rparr>"
  have s: "stat ?fs ''d'' = Some (Dir ?es)" by code_simp
  have w: "wf_node (Dir ?es)" by (simp add: valid_name_def)
  have "fst (find_files ?fs [''d''] True) = map (below ''d'') (tree_files (Dir ?es))"
    by (rule conjunct1 [OF directory_walk_and_skips [OF s w]])
  also have "\<dots> = [''d/real.bin'', ''d/sub/deep.bin'']" by code_simp
  finally show ?thesis .
qed

text \<open>
  The claim as written fails: a link given as input, with recursion on, that resolves to a
  directory is not skipped; the directory behind it is walked, and no message at level
  CRITICAL is logged.
\<close>

theorem linked_directory_counterexample:
  "islink \<lparr>root = Dir [(''real'', Dir [(''x.bin'', File True ''abc'')]),
                        (''lnk'', Link (Some (Dir [(''x.bin'', File True ''abc'')])))],
            cwd = ''/''\<rparr> ''lnk''
   \<and> find_files
       \<lparr>root = Dir [(''real'', Dir [(''x.bin'', File True ''abc'')]),
                    (''lnk'', Link (Some (Dir [(''x.bin'', File True ''abc'')])))],
        cwd = ''/''\<rparr> [''lnk''] True
     = ([''lnk/x.bin''],
        [(DEBUG, ''Found directory: lnk''), (INFO, ''File found: '' @ quoted ''lnk/x.bin'')])"
  by code_simp

section \<open>Literal files are returned in absolute form\<close>

text \<open>
  What holds of the other branch of \<open>find_files\<close>: a literal input that is kept is
  returned as \<open>os.path.abspath\<close> makes it, an absolute path.
\<close>

lemma normpath_absolute: "isabs p \<Longrightarrow> isabs (normpath p)"
  by (auto simp: normpath_def isabs_def startswith_def Let_def)

lemma path_join_absolute: "isabs a \<Longrightarrow> isabs (path_join a b)"
  by (cases a) (auto simp: path_join_def isabs_def startswith_def)

lemma abspath_absolute: "isabs (cwd fs) \<Longrightarrow> isabs (abspath fs f)"
  by (simp add: abspath_def normpath_absolute path_join_absolute)

lemma find_files_literal_absolute:
  assumes "isabs (cwd fs)" "keep_file fs f" "\<not> (recurse \<and> isdir fs f)"
  shows "fst (find_files fs [f] recurse) = [abspath fs f] \<and> isabs (abspath fs f)"
  using assms by (auto simp: abspath_absolute Let_def)

end
